theory Spec2Isabelle
  imports Complex_Main
begin

section \<open>Host side: the PID controller of stablizer.py\<close>

text \<open>
  Python floats are idealised as exact reals (no rounding, no infinity, no NaN): the
  development is about the control law and its state, not about rounding. The fields of \<open>Pid\<close> keep the names of the class
  (\<open>partial\<close>, \<open>integral\<close> and \<open>derivative\<close> are the three gains, \<open>accumulate_error\<close> is
  the integral accumulator); \<open>output\<close> is written \<open>output_val\<close>.
\<close>

record Pid =
  target :: real
  last_error :: real
  accumulate_error_min :: real
  accumulate_error_max :: real
  accumulate_error :: real
  output_val :: real
  partial :: real
  integral :: real
  derivative :: real
  p_err :: real
  i_err :: real
  d_err :: real

text \<open>\<open>Pid.__init__\<close>, with the defaults \<open>i_min = -100\<close> and \<open>i_max = 100\<close> passed explicitly.\<close>

definition Pid_init :: "real \<Rightarrow> real \<Rightarrow> real \<Rightarrow> real \<Rightarrow> real \<Rightarrow> real \<Rightarrow> Pid" where
  "Pid_init p i d t i_min i_max =
     \<lparr>target = t, last_error = 0,
      accumulate_error_min = i_min, accumulate_error_max = i_max,
      accumulate_error = 0, output_val = 0,
      partial = p, integral = i, derivative = d,
      p_err = 0, i_err = 0, d_err = 0\<rparr>"

definition DEFAULT_PID_VALUES :: "real \<times> real \<times> real \<times> real" where
  "DEFAULT_PID_VALUES = (150000, 7000, 0, 0)"

definition Pid_default :: Pid where
  "Pid_default =
     (case DEFAULT_PID_VALUES of (p, i, d, t) \<Rightarrow> Pid_init p i d t (- 100) 100)"

datatype host_error = AssertionError string

definition set_target :: "Pid \<Rightarrow> real \<Rightarrow> Pid" where
  "set_target s t = s\<lparr>target := t\<rparr>"

text \<open>
  \<open>set_pidt\<close> takes a tuple of any length; the assertion on the length runs before any
  field is written, so a failed call leaves the controller as it was.
\<close>

definition set_pidt :: "Pid \<Rightarrow> real list \<Rightarrow> host_error + Pid" where
  "set_pidt s pidt =
     (if length pidt \<noteq> 4 then Inl (AssertionError ''p, i, d, t value invalid'')
      else Inr (s\<lparr>partial := pidt ! 0, integral := pidt ! 1,
                  derivative := pidt ! 2, target := pidt ! 3\<rparr>))"

text \<open>
  \<open>Pid.pid\<close>: the two clamping tests are sequential \<open>if\<close>s on the accumulator just
  written, as in the source. The result is the returned output and the controller after
  the call.
\<close>

definition pid :: "Pid \<Rightarrow> real \<Rightarrow> real \<times> Pid" where
  "pid s feedback =
     (let error = target s - feedback;
          s1 = s\<lparr>accumulate_error := accumulate_error s + error\<rparr>;
          s2 = (if accumulate_error s1 < accumulate_error_min s1
                then s1\<lparr>accumulate_error := accumulate_error_min s1\<rparr> else s1);
          s3 = (if accumulate_error s2 > accumulate_error_max s2
                then s2\<lparr>accumulate_error := accumulate_error_max s2\<rparr> else s2);
          p = partial s3 * error;
          i = integral s3 * accumulate_error s3;
          d = derivative s3 * (error - last_error s3);
          s4 = s3\<lparr>output_val := p + i + d\<rparr>;
          s5 = s4\<lparr>p_err := p, i_err := i, d_err := d\<rparr>;
          s6 = s5\<lparr>last_error := error\<rparr>
      in (output_val s6, s6))"

text \<open>Repeated updates, one per feedback value, the controller threaded through.\<close>

fun pid_run :: "Pid \<Rightarrow> real list \<Rightarrow> Pid" where
  "pid_run s [] = s"
| "pid_run s (feedback # rest) = pid_run (snd (pid s feedback)) rest"

section \<open>Text: decimal numerals and whitespace\<close>

text \<open>
  Strings are byte strings. \<open>show_int\<close> is Python's \<open>str\<close> of an \<open>int\<close> (also what
  \<open>json.dumps\<close> writes for it): decimal digits, most significant first, a leading \<open>-\<close>
  for a negative number.
\<close>

definition dq :: char where
  "dq = CHR 0x22"

definition digit_char :: "nat \<Rightarrow> char" where
  "digit_char n = ''0123456789'' ! n"

definition is_digit :: "char \<Rightarrow> bool" where
  "is_digit c = (c \<in> set ''0123456789'')"

definition digit_val :: "char \<Rightarrow> nat" where
  "digit_val c = of_char c - 48"

fun show_nat :: "nat \<Rightarrow> string" where
  "show_nat n = (if n < 10 then [digit_char n] else show_nat (n div 10) @ [digit_char (n mod 10)])"

declare show_nat.simps [simp del]

definition show_int :: "int \<Rightarrow> string" where
  "show_int i = (if i < 0 then CHR ''-'' # show_nat (nat (- i)) else show_nat (nat i))"

definition digits_val :: "string \<Rightarrow> nat" where
  "digits_val ds = foldl (\<lambda>a c. 10 * a + digit_val c) 0 ds"

text \<open>
  \<open>str.strip()\<close> removes the ASCII whitespace characters (space, tab, line feed,
  carriage return, vertical tab, form feed) from both ends.
\<close>

definition is_space :: "char \<Rightarrow> bool" where
  "is_space c = (c \<in> {CHR '' '', CHR 0x09, CHR 0x0A, CHR 0x0D, CHR 0x0B, CHR 0x0C})"

definition strip :: "string \<Rightarrow> string" where
  "strip s = rev (dropWhile is_space (rev (dropWhile is_space s)))"

section \<open>JSON values and the json library\<close>

text \<open>
  The values \<open>json.loads\<close> returns: \<open>None\<close>, a \<open>bool\<close>, an \<open>int\<close>, a \<open>float\<close>
  (idealised as a real), a \<open>str\<close>, a \<open>list\<close> or a \<open>dict\<close>. A dict is kept as the list of
  its members in the order of the text; a key written twice has the value written last
  (\<open>dict_get\<close>).
\<close>

datatype json =
    JNull
  | JBool bool
  | JInt int
  | JFloat real
  | JStr string
  | JArr "json list"
  | JObj "(string \<times> json) list"

definition dict_get :: "(string \<times> json) list \<Rightarrow> string \<Rightarrow> json option" where
  "dict_get kvs k = map_of (rev kvs) k"

text \<open>
  \<open>json.loads\<close> is library code, outside the repository. It is modelled as a
  recursive-descent parser of the JSON grammar: the four whitespace characters, the
  literals \<open>null\<close>, \<open>true\<close> and \<open>false\<close>, numbers (an \<open>int\<close> when there is neither a
  fraction nor an exponent, a \<open>float\<close> otherwise), strings with the one-character
  escapes, arrays and objects. Left out, and parsed as errors here: \<open>\u\<close> escapes and
  the non-standard literals \<open>NaN\<close> and \<open>Infinity\<close>. The first argument of the parsing
  functions is fuel, one unit per nested call; \<open>json_loads\<close> starts them with twice the
  length of the text plus two, which is enough for every text (\<open>json_loads_fuel_enough\<close>
  below).
\<close>

definition is_ws :: "char \<Rightarrow> bool" where
  "is_ws c = (c \<in> {CHR '' '', CHR 0x09, CHR 0x0A, CHR 0x0D})"

definition skip_ws :: "string \<Rightarrow> string" where
  "skip_ws s = dropWhile is_ws s"

definition unescape :: "char \<Rightarrow> char option" where
  "unescape e =
     (if e = dq then Some dq
      else if e = CHR 0x5C then Some (CHR 0x5C)
      else if e = CHR ''/'' then Some (CHR ''/'')
      else if e = CHR ''b'' then Some (CHR 0x08)
      else if e = CHR ''f'' then Some (CHR 0x0C)
      else if e = CHR ''n'' then Some (CHR 0x0A)
      else if e = CHR ''r'' then Some (CHR 0x0D)
      else if e = CHR ''t'' then Some (CHR 0x09)
      else None)"

text \<open>The characters of a string after its opening quote, up to the closing quote.\<close>

fun parse_str_body :: "string \<Rightarrow> string \<Rightarrow> (string \<times> string) option" where
  "parse_str_body [] acc = None"
| "parse_str_body (c # r) acc =
     (if c = dq then Some (rev acc, r)
      else if c = CHR 0x5C then
        (case r of
           [] \<Rightarrow> None
         | e # r' \<Rightarrow>
             (case unescape e of
                None \<Rightarrow> None
              | Some x \<Rightarrow> parse_str_body r' (x # acc)))
      else if (of_char c :: nat) < 32 then None
      else parse_str_body r (c # acc))"

text \<open>
  A number: \<open>-?(0|[1-9][0-9]*)(\.[0-9]+)?([eE][+-]?[0-9]+)?\<close>, the longest match. A
  fraction or exponent that is not followed by a digit is not part of the number.
\<close>

definition starts_with :: "char \<Rightarrow> string \<Rightarrow> bool" where
  "starts_with c s = (case s of [] \<Rightarrow> False | x # _ \<Rightarrow> x = c)"

definition scale10 :: "real \<Rightarrow> int \<Rightarrow> real" where
  "scale10 x e = (if 0 \<le> e then x * 10 ^ nat e else x / 10 ^ nat (- e))"

definition int_digits :: "string \<Rightarrow> string" where
  "int_digits s = (if starts_with (CHR ''0'') s then ''0'' else takeWhile is_digit s)"

definition frac_digits :: "string \<Rightarrow> string" where
  "frac_digits s = (if starts_with (CHR ''.'') s then takeWhile is_digit (tl s) else [])"

text \<open>
  The exponent at the head of a text: whether it is negative, its digits, and the text
  after it. Without a digit there is no exponent and nothing is consumed.
\<close>

definition exp_part :: "string \<Rightarrow> bool \<times> string \<times> string" where
  "exp_part s =
     (if starts_with (CHR ''e'') s \<or> starts_with (CHR ''E'') s then
        (let s1 = tl s;
             eneg = starts_with (CHR ''-'') s1;
             s2 = (if eneg \<or> starts_with (CHR ''+'') s1 then tl s1 else s1);
             ed = takeWhile is_digit s2
         in if ed = [] then (False, [], s) else (eneg, ed, drop (length ed) s2))
      else (False, [], s))"

definition parse_number :: "string \<Rightarrow> (json \<times> string) option" where
  "parse_number s =
     (let neg = starts_with (CHR ''-'') s;
          s1 = (if neg then tl s else s);
          ds = int_digits s1;
          s2 = drop (length ds) s1;
          fd = frac_digits s2;
          s3 = (if fd = [] then s2 else drop (length fd) (tl s2));
          (eneg, ed, s4) = exp_part s3;
          sign = (if neg then - 1 else 1)
      in if ds = [] then None
         else if fd = [] \<and> ed = [] then Some (JInt (sign * int (digits_val ds)), s4)
         else Some (JFloat
                (real_of_int sign
                 * scale10 (real (digits_val ds) + real (digits_val fd) / 10 ^ length fd)
                     (if eneg then - int (digits_val ed) else int (digits_val ed))), s4))"

fun parse_value :: "nat \<Rightarrow> string \<Rightarrow> (json \<times> string) option"
  and parse_elems :: "nat \<Rightarrow> string \<Rightarrow> json list \<Rightarrow> (json \<times> string) option"
  and parse_members :: "nat \<Rightarrow> string \<Rightarrow> (string \<times> json) list \<Rightarrow> (json \<times> string) option"
where
  "parse_value 0 s = None"
| "parse_value (Suc n) s =
     (let s' = skip_ws s in
      if starts_with (CHR ''{'') s' then
        (let r1 = skip_ws (tl s') in
         if starts_with (CHR ''}'') r1 then Some (JObj [], tl r1) else parse_members n r1 [])
      else if starts_with (CHR ''['') s' then
        (let r1 = skip_ws (tl s') in
         if starts_with (CHR '']'') r1 then Some (JArr [], tl r1) else parse_elems n r1 [])
      else if starts_with dq s' then
        (case parse_str_body (tl s') [] of
           None \<Rightarrow> None
         | Some (str, r) \<Rightarrow> Some (JStr str, r))
      else if take 4 s' = ''null'' then Some (JNull, drop 4 s')
      else if take 4 s' = ''true'' then Some (JBool True, drop 4 s')
      else if take 5 s' = ''false'' then Some (JBool False, drop 5 s')
      else parse_number s')"
| "parse_elems 0 s acc = None"
| "parse_elems (Suc n) s acc =
     (case parse_value n s of
        None \<Rightarrow> None
      | Some (v, r) \<Rightarrow>
          (let r1 = skip_ws r in
           if starts_with (CHR '','') r1 then parse_elems n (tl r1) (acc @ [v])
           else if starts_with (CHR '']'') r1 then Some (JArr (acc @ [v]), tl r1)
           else None))"
| "parse_members 0 s acc = None"
| "parse_members (Suc n) s acc =
     (let s1 = skip_ws s in
      if \<not> starts_with dq s1 then None
      else
        (case parse_str_body (tl s1) [] of
           None \<Rightarrow> None
         | Some (k, r) \<Rightarrow>
             (let r1 = skip_ws r in
              if \<not> starts_with (CHR '':'') r1 then None
              else
                (case parse_value n (tl r1) of
                   None \<Rightarrow> None
                 | Some (v, r2) \<Rightarrow>
                     (let r3 = skip_ws r2 in
                      if starts_with (CHR '','') r3 then parse_members n (tl r3) (acc @ [(k, v)])
                      else if starts_with (CHR ''}'') r3 then Some (JObj (acc @ [(k, v)]), tl r3)
                      else None)))))"

declare parse_value.simps [simp del] parse_elems.simps [simp del] parse_members.simps [simp del]

definition json_loads :: "string \<Rightarrow> json option" where
  "json_loads s =
     (case parse_value (2 * length s + 2) s of
        None \<Rightarrow> None
      | Some (v, r) \<Rightarrow> if skip_ws r = [] then Some v else None)"

section \<open>Host side: sending a command and the control tick of stablizer.py\<close>

text \<open>
  A Python number is an \<open>int\<close> or a \<open>float\<close>; \<open>json.dumps\<close> writes them differently.
  The text of a float (\<open>float.__repr__\<close>) is a parameter, \<open>float_repr\<close>.
\<close>

datatype pynum = PyInt int | PyFloat real

definition num_val :: "pynum \<Rightarrow> real" where
  "num_val x = (case x of PyInt i \<Rightarrow> real_of_int i | PyFloat r \<Rightarrow> r)"

text \<open>Python's \<open>min(a, b)\<close> and \<open>max(a, b)\<close> return \<open>a\<close> unless \<open>b\<close> is strictly better.\<close>

definition py_min :: "pynum \<Rightarrow> pynum \<Rightarrow> pynum" where
  "py_min a b = (if num_val b < num_val a then b else a)"

definition py_max :: "pynum \<Rightarrow> pynum \<Rightarrow> pynum" where
  "py_max a b = (if num_val b > num_val a then b else a)"

definition json_key :: "string \<Rightarrow> string" where
  "json_key k = dq # k @ [dq]"

definition dumps_num :: "(real \<Rightarrow> string) \<Rightarrow> pynum \<Rightarrow> string" where
  "dumps_num float_repr x = (case x of PyInt i \<Rightarrow> show_int i | PyFloat r \<Rightarrow> float_repr r)"

text \<open>
  \<open>json.dumps({"freq": freq, "duty": duty})\<close> with the default separators;
  \<open>cmd_text a b\<close> is the text of the object whose two numbers are written \<open>a\<close> and
  \<open>b\<close>.
\<close>

definition cmd_text :: "string \<Rightarrow> string \<Rightarrow> string" where
  "cmd_text a b =
     ''{'' @ json_key ''freq'' @ '': '' @ a @ '', '' @ json_key ''duty'' @ '': '' @ b @ ''}''"

definition dumps_pwm_cmd :: "(real \<Rightarrow> string) \<Rightarrow> pynum \<Rightarrow> pynum \<Rightarrow> string" where
  "dumps_pwm_cmd float_repr freq duty =
     cmd_text (dumps_num float_repr freq) (dumps_num float_repr duty)"

text \<open>
  \<open>set_pwm\<close>: the serial port is the list of the byte messages written to it, oldest
  first.
\<close>

definition set_pwm :: "(real \<Rightarrow> string) \<Rightarrow> pynum \<Rightarrow> pynum \<Rightarrow> string list \<Rightarrow> string list" where
  "set_pwm float_repr freq duty micro_controller =
     (let pwm_str = dumps_pwm_cmd float_repr freq duty;
          byte_message = pwm_str @ ''\<newline>''
      in micro_controller @ [byte_message])"

record session_state =
  micro_controller :: "string list"
  pid_controller :: Pid
  time_list :: "real list"
  power_list :: "real list"
  current_pwm_duty :: pynum
  closed_loop_running :: bool

text \<open>The "set PWM" button of the open-loop section (lines 182 to 188).\<close>

definition open_loop_set :: "(real \<Rightarrow> string) \<Rightarrow> pynum \<Rightarrow> pynum \<Rightarrow> session_state \<Rightarrow> session_state" where
  "open_loop_set float_repr pwm_freq pwm_duty st =
     (let st1 = st\<lparr>micro_controller := set_pwm float_repr pwm_freq pwm_duty (micro_controller st)\<rparr>
      in st1\<lparr>current_pwm_duty := pwm_duty\<rparr>)"

text \<open>
  One pass of the measuring loop (lines 244 to 294), given the power just read and the
  time; the plot is left out. With closed-loop control on, the new duty cycle is the
  stored duty plus the controller's output, clamped by \<open>max(0, min(65535, _))\<close>, and is
  sent with the frequency of the slider.
\<close>

definition control_tick ::
  "(real \<Rightarrow> string) \<Rightarrow> pynum \<Rightarrow> real \<Rightarrow> real \<Rightarrow> session_state \<Rightarrow> session_state" where
  "control_tick float_repr pwm_freq current_time power_value st =
     (let st1 = st\<lparr>time_list := time_list st @ [current_time]\<rparr>;
          st2 = st1\<lparr>power_list := power_list st1 @ [power_value]\<rparr>
      in if closed_loop_running st2 then
           (let (out, pid') = pid (pid_controller st2) power_value;
                st3 = st2\<lparr>pid_controller := pid'\<rparr>;
                new_duty_cycle = PyFloat (num_val (current_pwm_duty st3) + out);
                new_duty_cycle = py_max (PyInt 0) (py_min (PyInt 65535) new_duty_cycle)
            in st3\<lparr>micro_controller :=
                      set_pwm float_repr pwm_freq new_duty_cycle (micro_controller st3)\<rparr>)
         else st2)"

text \<open>
  A session in closed-loop mode with a proportional controller (gains 1, 0, 0, target
  10), nothing sent yet and the stored duty 0.
\<close>

definition p_only_session :: session_state where
  "p_only_session =
     \<lparr>micro_controller = [], pid_controller = Pid_init 1 0 0 10 (- 100) 100,
      time_list = [], power_list = [], current_pwm_duty = PyInt 0,
      closed_loop_running = True\<rparr>"

section \<open>Device side: main.py\<close>

text \<open>
  \<open>MCmd\<close> is the status message shared by the command loop and the display thread;
  \<open>time\<close> is its hold time in milliseconds.
\<close>

record MCmd =
  rendered :: bool
  title :: string
  message :: string
  time :: int

definition MCmd_init :: "bool \<Rightarrow> string \<Rightarrow> string \<Rightarrow> int \<Rightarrow> MCmd" where
  "MCmd_init r t m time_ms = \<lparr>rendered = r, title = t, message = m, time = time_ms\<rparr>"

text \<open>
  The exceptions of the command loop. \<open>ValueError\<close> and \<open>KeyError\<close> with a message are
  the ones main.py raises itself; the next four are raised by the Python runtime
  (\<open>NotIterable\<close> and \<open>BadIndex\<close> are \<open>TypeError\<close>s of \<open>in\<close> and of indexing,
  \<open>IntOfStr\<close> is the \<open>ValueError\<close> and \<open>IntOfValue\<close> the \<open>TypeError\<close> of \<open>int()\<close>);
  \<open>Raised\<close> is an exception of a collaborator (the poll, the PWM driver, the display).
\<close>

datatype exn =
    ValueError string
  | KeyError string
  | NotIterable json
  | BadIndex json
  | IntOfStr string
  | IntOfValue json
  | Raised string

text \<open>
  What the model does not fix is a parameter: \<open>int()\<close> of a string, \<open>str()\<close> of an
  exception, the text of \<open>duty*100/65535\<close> formatted with \<open>.2f\<close> (floating point), and
  whether a call of the PWM driver or of the display raises.
\<close>

record platform =
  int_of_str :: "string \<Rightarrow> int option"
  exn_str :: "exn \<Rightarrow> string"
  fmt_percent :: "int \<Rightarrow> string"
  pwm_freq_exn :: "int \<Rightarrow> exn option"
  pwm_duty_exn :: "int \<Rightarrow> exn option"
  draw_exn :: "string \<Rightarrow> string \<Rightarrow> exn option"

text \<open>
  The effects of the device, in the order they happen: an assignment of a new status
  message to \<open>monitor_cmd\<close>, a call of \<open>laser_pwm.freq\<close> or \<open>laser_pwm.duty_u16\<close>, a
  completed \<open>display.draw_message\<close>.
\<close>

datatype event =
    Publish MCmd
  | PwmFreq int
  | PwmDuty int
  | Draw string string

record device =
  monitor_cmd :: MCmd
  trace :: "event list"

definition set_monitor_cmd :: "MCmd \<Rightarrow> device \<Rightarrow> device" where
  "set_monitor_cmd m dv = dv\<lparr>monitor_cmd := m, trace := trace dv @ [Publish m]\<rparr>"

definition call :: "event \<Rightarrow> device \<Rightarrow> device" where
  "call ev dv = dv\<lparr>trace := trace dv @ [ev]\<rparr>"

text \<open>The device after the initialisation of main.py (lines 61 to 81).\<close>

definition init_cmd :: MCmd where
  "init_cmd = MCmd_init False ''init'' ''init success, starting main loop...'' 1000"

definition device_init :: device where
  "device_init = \<lparr>monitor_cmd = init_cmd, trace = [PwmDuty 0, Publish init_cmd]\<rparr>"

text \<open>\<open>load_cmd\<close>: the parsed value, or \<open>None\<close> when the text is not JSON.\<close>

definition load_cmd :: "string \<Rightarrow> json option" where
  "load_cmd msg = json_loads msg"

text \<open>Python's truth value of a parsed value (\<open>not cmd\<close>).\<close>

fun truthy :: "json \<Rightarrow> bool" where
  "truthy JNull = False"
| "truthy (JBool b) = b"
| "truthy (JInt i) = (i \<noteq> 0)"
| "truthy (JFloat x) = (x \<noteq> 0)"
| "truthy (JStr s) = (s \<noteq> [])"
| "truthy (JArr xs) = (xs \<noteq> [])"
| "truthy (JObj kvs) = (kvs \<noteq> [])"

fun str_contains :: "string \<Rightarrow> string \<Rightarrow> bool" where
  "str_contains k [] = (k = [])"
| "str_contains k (c # r) = (take (length k) (c # r) = k \<or> str_contains k r)"

text \<open>
  \<open>k in v\<close> for a string \<open>k\<close>: a key of a dict, an element of a list, a substring of
  a string; a \<open>TypeError\<close> for the other values.
\<close>

fun py_contains :: "string \<Rightarrow> json \<Rightarrow> exn + bool" where
  "py_contains k (JObj kvs) = Inr (k \<in> set (map fst kvs))"
| "py_contains k (JArr xs) = Inr (JStr k \<in> set xs)"
| "py_contains k (JStr s) = Inr (str_contains k s)"
| "py_contains k v = Inl (NotIterable v)"

text \<open>\<open>v[k]\<close> for a string \<open>k\<close>.\<close>

fun py_getitem :: "json \<Rightarrow> string \<Rightarrow> exn + json" where
  "py_getitem (JObj kvs) k = (case dict_get kvs k of None \<Rightarrow> Inl (KeyError k) | Some x \<Rightarrow> Inr x)"
| "py_getitem v k = Inl (BadIndex v)"

text \<open>
  \<open>int(v)\<close>: an \<open>int\<close> is itself, a \<open>bool\<close> is 0 or 1, a \<open>float\<close> is truncated towards
  zero, a string is read by the platform, anything else is a \<open>TypeError\<close>.
\<close>

definition py_trunc :: "real \<Rightarrow> int" where
  "py_trunc x = (if 0 \<le> x then \<lfloor>x\<rfloor> else \<lceil>x\<rceil>)"

fun py_int :: "platform \<Rightarrow> json \<Rightarrow> exn + int" where
  "py_int P (JInt i) = Inr i"
| "py_int P (JBool b) = Inr (if b then 1 else 0)"
| "py_int P (JFloat x) = Inr (py_trunc x)"
| "py_int P (JStr s) = (case int_of_str P s of None \<Rightarrow> Inl (IntOfStr s) | Some i \<Rightarrow> Inr i)"
| "py_int P v = Inl (IntOfValue v)"

text \<open>Lines 98 to 105 of the command loop, on the result of \<open>load_cmd\<close>.\<close>

definition parse_cmd :: "platform \<Rightarrow> json option \<Rightarrow> exn + (int \<times> int)" where
  "parse_cmd P cmd =
     (case cmd of
        None \<Rightarrow> Inl (ValueError ''invalid cmd'')
      | Some v \<Rightarrow>
          if \<not> truthy v then Inl (ValueError ''invalid cmd'')
          else
            (case py_contains ''freq'' v of
               Inl e \<Rightarrow> Inl e
             | Inr has_freq \<Rightarrow>
                 (case (if \<not> has_freq then Inr False else py_contains ''duty'' v) of
                    Inl e \<Rightarrow> Inl e
                  | Inr has_both \<Rightarrow>
                      if \<not> has_both then Inl (KeyError ''missing freq or duty'')
                      else
                        (case py_getitem v ''freq'' of
                           Inl e \<Rightarrow> Inl e
                         | Inr vf \<Rightarrow>
                             (case py_int P vf of
                                Inl e \<Rightarrow> Inl e
                              | Inr freq \<Rightarrow>
                                  (case py_getitem v ''duty'' of
                                     Inl e \<Rightarrow> Inl e
                                   | Inr vd \<Rightarrow>
                                       (case py_int P vd of
                                          Inl e \<Rightarrow> Inl e
                                        | Inr duty \<Rightarrow>
                                            if freq < 1000 \<or> freq > 1000000
                                               \<or> duty < 0 \<or> duty > 65535
                                            then Inl (ValueError ''invalid freq or duty'')
                                            else Inr (freq, duty))))))))"

text \<open>Lines 96 to 105: the received line, stripped, parsed and checked.\<close>

definition decode_line :: "platform \<Rightarrow> string \<Rightarrow> exn + (int \<times> int)" where
  "decode_line P line = (let msg = strip line; cmd = load_cmd msg in parse_cmd P cmd)"

definition success_cmd :: "platform \<Rightarrow> int \<Rightarrow> int \<Rightarrow> int \<Rightarrow> MCmd" where
  "success_cmd P now freq duty =
     MCmd_init False (''PWM '' @ show_int now)
       (''FREQ: '' @ show_int freq @ ''\<newline>DUTY: '' @ fmt_percent P duty @ ''%'') 10"

text \<open>
  The body of the \<open>try\<close> (lines 96 to 115): the device after it, and the exception that
  left it, if any. \<open>now\<close> is the value of \<open>time.time()\<close>. A call of the PWM driver is
  recorded in the trace whether or not it raises.
\<close>

definition try_command :: "platform \<Rightarrow> int \<Rightarrow> string \<Rightarrow> device \<Rightarrow> device \<times> exn option" where
  "try_command P now line dv =
     (case decode_line P line of
        Inl e \<Rightarrow> (dv, Some e)
      | Inr (freq, duty) \<Rightarrow>
          (let dv1 = set_monitor_cmd (success_cmd P now freq duty) dv;
               dv2 = call (PwmFreq freq) dv1
           in case pwm_freq_exn P freq of
                Some e \<Rightarrow> (dv2, Some e)
              | None \<Rightarrow>
                  (let dv3 = call (PwmDuty duty) dv2
                   in (dv3, pwm_duty_exn P duty))))"

datatype poll_result = PollRaises exn | PollEmpty | PollLine string

text \<open>One pass of the \<open>while True\<close> of the command loop (lines 83 to 131).\<close>

definition main_iteration :: "platform \<Rightarrow> int \<Rightarrow> poll_result \<Rightarrow> device \<Rightarrow> device" where
  "main_iteration P now polled dv =
     (case polled of
        PollRaises e \<Rightarrow> set_monitor_cmd (MCmd_init False ''P Error'' (exn_str P e) 1000) dv
      | PollEmpty \<Rightarrow>
          set_monitor_cmd
            (MCmd_init False (''no cmd '' @ show_int now) ''waiting for cmd...'' 10) dv
      | PollLine line \<Rightarrow>
          (case try_command P now line dv of
             (dv', None) \<Rightarrow> dv'
           | (dv', Some e) \<Rightarrow>
               set_monitor_cmd (MCmd_init False ''C Error'' (exn_str P e) 1000) dv'))"

text \<open>
  One pass of the \<open>while True\<close> of \<open>monitor\<close> (lines 33 to 49); the sleeps are left out.
  A pass of either loop is one step: the two threads are interleaved pass by pass.
\<close>

definition monitor_iteration :: "platform \<Rightarrow> device \<Rightarrow> device" where
  "monitor_iteration P dv =
     (if \<not> rendered (monitor_cmd dv) then
        (case draw_exn P (title (monitor_cmd dv)) (message (monitor_cmd dv)) of
           None \<Rightarrow>
             (let dv1 = call (Draw (title (monitor_cmd dv)) (message (monitor_cmd dv))) dv
              in dv1\<lparr>monitor_cmd := (monitor_cmd dv1)\<lparr>rendered := True\<rparr>\<rparr>)
         | Some e \<Rightarrow> set_monitor_cmd (MCmd_init False ''M Error'' (exn_str P e) 1000) dv)
      else dv)"

text \<open>
  The two loops running together: a schedule is the list of their passes in the order
  they take place. A pass of the command loop comes with the time and with what the
  poll returned.
\<close>

datatype step = MainStep int poll_result | MonitorStep

fun run :: "platform \<Rightarrow> step list \<Rightarrow> device \<Rightarrow> device" where
  "run P [] dv = dv"
| "run P (MainStep now polled # rest) dv = run P rest (main_iteration P now polled dv)"
| "run P (MonitorStep # rest) dv = run P rest (monitor_iteration P dv)"

fun is_draw :: "event \<Rightarrow> bool" where
  "is_draw (Draw t m) = True"
| "is_draw ev = False"

fun is_publish :: "event \<Rightarrow> bool" where
  "is_publish (Publish m) = True"
| "is_publish ev = False"

text \<open>Whether the message in the slot is still to be drawn, as a count.\<close>

definition pending :: "device \<Rightarrow> nat" where
  "pending dv = (if rendered (monitor_cmd dv) then 0 else 1)"

section \<open>A sample platform and auxiliary notions\<close>

text \<open>
  One platform, for evaluating the device at concrete inputs: \<open>int()\<close> reads unsigned
  decimal strings, \<open>str()\<close> of an exception raised with a message is the message, the
  percentage is rounded to the nearest hundredth, and the drivers never raise. On the
  host, \<open>sample_float_repr\<close> writes a float with an integral value.
\<close>

definition sample_exn_str :: "exn \<Rightarrow> string" where
  "sample_exn_str e =
     (case e of
        ValueError m \<Rightarrow> m
      | KeyError m \<Rightarrow> m
      | NotIterable v \<Rightarrow> ''TypeError''
      | BadIndex v \<Rightarrow> ''TypeError''
      | IntOfStr t \<Rightarrow> ''ValueError''
      | IntOfValue v \<Rightarrow> ''TypeError''
      | Raised m \<Rightarrow> m)"

definition sample_fmt_percent :: "int \<Rightarrow> string" where
  "sample_fmt_percent duty =
     (let h = (duty * 20000 + 65535) div 131070
      in show_int (h div 100) @ ''.''
         @ [digit_char (nat (h mod 100 div 10)), digit_char (nat (h mod 10))])"

definition sample_float_repr :: "real \<Rightarrow> string" where
  "sample_float_repr x = show_int \<lfloor>x\<rfloor> @ ''.0''"

definition sample_platform :: platform where
  "sample_platform =
     \<lparr>int_of_str = (\<lambda>t. if t \<noteq> [] \<and> list_all is_digit t
                           then Some (int (digits_val t)) else None),
      exn_str = sample_exn_str,
      fmt_percent = sample_fmt_percent,
      pwm_freq_exn = (\<lambda>freq. None),
      pwm_duty_exn = (\<lambda>duty. None),
      draw_exn = (\<lambda>t m. None)\<rparr>"

text \<open>
  For the proofs about the parser: a text at which a number ends (nothing that would
  continue an integer), and a text that starts like a number.
\<close>

definition number_end :: "string \<Rightarrow> bool" where
  "number_end r =
     (case r of
        [] \<Rightarrow> True
      | c # _ \<Rightarrow> \<not> is_digit c \<and> c \<noteq> CHR ''.'' \<and> c \<noteq> CHR ''e'' \<and> c \<noteq> CHR ''E'')"

definition num_start :: "string \<Rightarrow> bool" where
  "num_start a = (case a of [] \<Rightarrow> False | c # _ \<Rightarrow> is_digit c \<or> c = CHR ''-'')"

text \<open>
  Fuel \<open>m\<close> suffices for a parse of \<open>s\<close> that leaves \<open>r\<close>: twice the number of
  characters read, less \<open>k\<close>.
\<close>

definition fuel_ok :: "nat \<Rightarrow> nat \<Rightarrow> string \<Rightarrow> string \<Rightarrow> bool" where
  "fuel_ok k m s r = (2 * length s \<le> m + k + 2 * length r)"

text \<open>The numeric value of a JSON number.\<close>

definition json_num :: "json \<Rightarrow> real option" where
  "json_num v = (case v of JInt i \<Rightarrow> Some (real_of_int i) | JFloat x \<Rightarrow> Some x | _ \<Rightarrow> None)"

section \<open>Properties of the PID controller\<close>

lemma pid_limits_unchanged:
  "accumulate_error_min (snd (pid s feedback)) = accumulate_error_min s"
  "accumulate_error_max (snd (pid s feedback)) = accumulate_error_max s"
  by (simp_all add: pid_def Let_def)

lemma pid_accumulate_error:
  "accumulate_error (snd (pid s feedback)) =
     min (accumulate_error_max s)
       (max (accumulate_error_min s) (accumulate_error s + (target s - feedback)))"
  by (simp add: pid_def Let_def min_def max_def)

text \<open>
  C4. \<open>Pid.pid(feedback)\<close> computes \<open>error = target - feedback\<close>, adds it to the integral
  accumulator and clamps the sum to \<open>[i_min, i_max]\<close>, returns
  \<open>p_gain*error + i_gain*integral + d_gain*(error - last_error)\<close> with the old
  \<open>last_error\<close>, and stores \<open>error\<close> as \<open>last_error\<close> for the next call.
\<close>

theorem pid_control_law:
  "(let error = target s - feedback;
        acc = min (accumulate_error_max s)
                (max (accumulate_error_min s) (accumulate_error s + error));
        (out, s') = pid s feedback
    in out = partial s * error + integral s * acc + derivative s * (error - last_error s)
       \<and> accumulate_error s' = acc
       \<and> last_error s' = error
       \<and> output_val s' = out)"
  by (simp add: pid_def Let_def min_def max_def)

lemma pid_keeps_accumulator_in_range:
  assumes "accumulate_error_min s \<le> accumulate_error s"
    and "accumulate_error s \<le> accumulate_error_max s"
  shows "accumulate_error_min s \<le> accumulate_error (snd (pid s feedback))"
    and "accumulate_error (snd (pid s feedback)) \<le> accumulate_error_max s"
  using assms by (simp_all add: pid_accumulate_error)

lemma pid_run_keeps_accumulator_in_range:
  "accumulate_error_min s \<le> accumulate_error s \<Longrightarrow>
   accumulate_error s \<le> accumulate_error_max s \<Longrightarrow>
   accumulate_error_min (pid_run s feedbacks) = accumulate_error_min s \<and>
   accumulate_error_max (pid_run s feedbacks) = accumulate_error_max s \<and>
   accumulate_error_min s \<le> accumulate_error (pid_run s feedbacks) \<and>
   accumulate_error (pid_run s feedbacks) \<le> accumulate_error_max s"
proof (induction feedbacks arbitrary: s)
  case Nil
  then show ?case by simp
next
  case (Cons feedback rest)
  let ?s' = "snd (pid s feedback)"
  have lo: "accumulate_error_min ?s' \<le> accumulate_error ?s'"
    using Cons.prems by (simp add: pid_limits_unchanged pid_keeps_accumulator_in_range)
  have hi: "accumulate_error ?s' \<le> accumulate_error_max ?s'"
    using Cons.prems by (simp add: pid_limits_unchanged pid_keeps_accumulator_in_range)
  from Cons.IH [OF lo hi] show ?case
    by (simp add: pid_limits_unchanged)
qed

text \<open>
  C5. If the integral accumulator of a controller lies in \<open>[i_min, i_max]\<close>, it still
  does after a call of \<open>Pid.pid\<close>, and after any sequence of calls; in particular after
  any number \<open>n\<close> of calls with one constant feedback (so with a constant positive error)
  it does not exceed \<open>i_max\<close>.
\<close>

theorem pid_anti_windup:
  assumes "accumulate_error_min s \<le> accumulate_error s"
    and "accumulate_error s \<le> accumulate_error_max s"
  shows "accumulate_error_min s \<le> accumulate_error (snd (pid s feedback))
       \<and> accumulate_error (snd (pid s feedback)) \<le> accumulate_error_max s
       \<and> accumulate_error_min s \<le> accumulate_error (pid_run s feedbacks)
       \<and> accumulate_error (pid_run s feedbacks) \<le> accumulate_error_max s
       \<and> accumulate_error (pid_run s (replicate n feedback)) \<le> accumulate_error_max s"
  using pid_keeps_accumulator_in_range [OF assms, of feedback]
    pid_run_keeps_accumulator_in_range [OF assms, of feedbacks]
    pid_run_keeps_accumulator_in_range [OF assms, of "replicate n feedback"]
  by simp

text \<open>
  The default controller (target 0) fed the constant power \<open>-60\<close>, an error of \<open>60\<close> per
  call: the accumulator is 60 after one call and stays pinned at \<open>i_max = 100\<close> from the
  second call on.
\<close>

theorem pid_anti_windup_witness:
  "accumulate_error_min Pid_default \<le> accumulate_error Pid_default
   \<and> accumulate_error Pid_default \<le> accumulate_error_max Pid_default
   \<and> accumulate_error (snd (pid Pid_default (- 60))) = 60
   \<and> accumulate_error (pid_run Pid_default [- 60, - 60, - 60]) = 100
   \<and> accumulate_error (pid_run Pid_default (replicate 3 (- 60))) \<le> 100"
proof -
  have lo: "accumulate_error_min Pid_default \<le> accumulate_error Pid_default"
    by (simp add: Pid_default_def DEFAULT_PID_VALUES_def Pid_init_def)
  have hi: "accumulate_error Pid_default \<le> accumulate_error_max Pid_default"
    by (simp add: Pid_default_def DEFAULT_PID_VALUES_def Pid_init_def)
  have mx: "accumulate_error_max Pid_default = 100"
    by (simp add: Pid_default_def DEFAULT_PID_VALUES_def Pid_init_def)
  have one: "accumulate_error (snd (pid Pid_default (- 60))) = 60"
    by (simp add: pid_accumulate_error Pid_default_def DEFAULT_PID_VALUES_def Pid_init_def)
  have three: "accumulate_error (pid_run Pid_default [- 60, - 60, - 60]) = 100"
    by (simp add: pid_def Let_def Pid_default_def DEFAULT_PID_VALUES_def Pid_init_def)
  from pid_anti_windup [OF lo hi, of "- 60" "[- 60, - 60, - 60]" 3] lo hi mx one three
  show ?thesis by simp
qed

text \<open>
  C6. \<open>set_target\<close> and \<open>set_pidt\<close> write only the configuration fields (the three gains
  and the target): restoring those fields gives back the controller as it was, so the
  integral accumulator and \<open>last_error\<close> are unchanged and residual windup survives a
  change of gains or target. A \<open>set_pidt\<close> whose tuple has not four components fails
  before writing anything.
\<close>

theorem set_target_set_pidt_frame:
  "set_target s t = s\<lparr>target := t\<rparr>
   \<and> accumulate_error (set_target s t) = accumulate_error s
   \<and> last_error (set_target s t) = last_error s
   \<and> (set_target s t)\<lparr>target := target s\<rparr> = s
   \<and> set_pidt s [p, i, d, t]
       = Inr (s\<lparr>partial := p, integral := i, derivative := d, target := t\<rparr>)
   \<and> (case set_pidt s pidt of
         Inl e \<Rightarrow> length pidt \<noteq> 4
       | Inr s' \<Rightarrow>
           accumulate_error s' = accumulate_error s
           \<and> last_error s' = last_error s
           \<and> s'\<lparr>partial := partial s, integral := integral s,
                 derivative := derivative s, target := target s\<rparr> = s
           \<and> partial s' = pidt ! 0 \<and> integral s' = pidt ! 1
           \<and> derivative s' = pidt ! 2 \<and> target s' = pidt ! 3)"
  by (simp add: set_target_def set_pidt_def)

section \<open>Properties of the host control tick\<close>

lemma control_tick_current_pwm_duty:
  "current_pwm_duty (control_tick float_repr pwm_freq current_time power_value st)
     = current_pwm_duty st"
  by (simp add: control_tick_def Let_def split: prod.splits)

lemma control_tick_sends:
  "closed_loop_running st \<Longrightarrow>
   micro_controller (control_tick float_repr pwm_freq current_time power_value st)
     = set_pwm float_repr pwm_freq
         (py_max (PyInt 0) (py_min (PyInt 65535)
            (PyFloat (num_val (current_pwm_duty st) + fst (pid (pid_controller st) power_value)))))
         (micro_controller st)"
  by (simp add: control_tick_def Let_def split: prod.splits)

text \<open>
  C1. A closed-loop tick computes \<open>current_duty + Pid.pid(power)\<close>, clamps it to
  \<open>[0, 65535]\<close> and sends it with the frequency, but it does not store the duty it
  sent: \<open>current_pwm_duty\<close> is the same after the tick as before, for every session. At
  the proportional session with power 5 the first tick sends the duty \<open>0 + 5 = 5\<close> and
  leaves the stored duty at 0, so the second tick sends \<open>0 + 5 = 5\<close> again, not
  \<open>5 + 5 = 10\<close>. The open-loop button does store what it sends.
\<close>

theorem control_tick_does_not_store_sent_duty:
  "current_pwm_duty (control_tick float_repr pwm_freq current_time power_value st)
     = current_pwm_duty st
   \<and> current_pwm_duty (open_loop_set float_repr pwm_freq pwm_duty st) = pwm_duty
   \<and> micro_controller (control_tick float_repr (PyInt 10000) 0 5 p_only_session)
       = [dumps_pwm_cmd float_repr (PyInt 10000) (PyFloat 5) @ ''\<newline>'']
   \<and> current_pwm_duty (control_tick float_repr (PyInt 10000) 0 5 p_only_session) = PyInt 0
   \<and> micro_controller
         (control_tick float_repr (PyInt 10000) 1 5
            (control_tick float_repr (PyInt 10000) 0 5 p_only_session))
       = [dumps_pwm_cmd float_repr (PyInt 10000) (PyFloat 5) @ ''\<newline>'',
          dumps_pwm_cmd float_repr (PyInt 10000) (PyFloat 5) @ ''\<newline>'']"
proof -
  have run: "closed_loop_running p_only_session"
    "closed_loop_running (control_tick float_repr (PyInt 10000) 0 5 p_only_session)"
    by (simp_all add: p_only_session_def control_tick_def Let_def split: prod.splits)
  have out1: "fst (pid (pid_controller p_only_session) 5) = 5"
    by (simp add: p_only_session_def Pid_init_def pid_def Let_def)
  have out2: "fst (pid (pid_controller
                  (control_tick float_repr (PyInt 10000) 0 5 p_only_session)) 5) = 5"
    by (simp add: p_only_session_def Pid_init_def control_tick_def pid_def Let_def)
  have base: "current_pwm_duty p_only_session = PyInt 0" "micro_controller p_only_session = []"
    by (simp_all add: p_only_session_def)
  have clamp: "py_max (PyInt 0) (py_min (PyInt 65535) (PyFloat (num_val (PyInt 0) + 5)))
                 = PyFloat 5"
    by (simp add: py_max_def py_min_def num_val_def)
  have first: "micro_controller (control_tick float_repr (PyInt 10000) 0 5 p_only_session)
                 = [dumps_pwm_cmd float_repr (PyInt 10000) (PyFloat 5) @ ''\<newline>'']"
    by (simp add: control_tick_sends [OF run(1)] out1 base clamp set_pwm_def)
  have second: "micro_controller
         (control_tick float_repr (PyInt 10000) 1 5
            (control_tick float_repr (PyInt 10000) 0 5 p_only_session))
       = [dumps_pwm_cmd float_repr (PyInt 10000) (PyFloat 5) @ ''\<newline>'',
          dumps_pwm_cmd float_repr (PyInt 10000) (PyFloat 5) @ ''\<newline>'']"
    by (simp add: control_tick_sends [OF run(2)] out2 control_tick_current_pwm_duty
          base clamp first set_pwm_def)
  show ?thesis
    using first second
    by (simp add: control_tick_current_pwm_duty base open_loop_set_def)
qed

section \<open>Decimal numerals and the parser on command texts\<close>

lemma digit_char_is_digit: "n < 10 \<Longrightarrow> is_digit (digit_char n)"
proof -
  assume "n < 10"
  then have "n \<in> {0,1,2,3,4,5,6,7,8,9}" by auto
  then show ?thesis
    by (auto simp: is_digit_def digit_char_def)
qed

lemma digit_val_digit_char: "n < 10 \<Longrightarrow> digit_val (digit_char n) = n"
proof -
  assume "n < 10"
  then have "n \<in> {0,1,2,3,4,5,6,7,8,9}" by auto
  then show ?thesis
    by (auto simp: digit_val_def digit_char_def)
qed

lemma digit_char_zero: "n < 10 \<Longrightarrow> (digit_char n = CHR ''0'') = (n = 0)"
proof -
  assume "n < 10"
  then have "n \<in> {0,1,2,3,4,5,6,7,8,9}" by auto
  then show ?thesis
    by (auto simp: digit_char_def)
qed

lemma show_nat_digits: "list_all is_digit (show_nat n)"
proof (induction n rule: show_nat.induct)
  case (1 n)
  show ?case
  proof (cases "n < 10")
    case True
    then show ?thesis by (simp add: show_nat.simps [of n] digit_char_is_digit)
  next
    case False
    with 1 show ?thesis
      by (simp add: show_nat.simps [of n] digit_char_is_digit)
  qed
qed

lemma show_nat_nonempty: "show_nat n \<noteq> []"
  by (subst show_nat.simps) simp

lemma digits_val_snoc: "digits_val (ds @ [c]) = 10 * digits_val ds + digit_val c"
  by (simp add: digits_val_def)

lemma digits_val_show_nat: "digits_val (show_nat n) = n"
proof (induction n rule: show_nat.induct)
  case (1 n)
  show ?case
  proof (cases "n < 10")
    case True
    then show ?thesis
      by (simp add: show_nat.simps [of n] digits_val_def digit_val_digit_char)
  next
    case False
    with 1 show ?thesis
      by (simp add: show_nat.simps [of n] digits_val_snoc digit_val_digit_char)
  qed
qed

lemma hd_show_nat_zero: "(hd (show_nat n) = CHR ''0'') = (n = 0)"
proof (induction n rule: show_nat.induct)
  case (1 n)
  show ?case
  proof (cases "n < 10")
    case True
    then show ?thesis
      by (simp add: show_nat.simps [of n] digit_char_zero)
  next
    case False
    then have "n div 10 \<noteq> 0" by simp
    with False 1 show ?thesis
      by (simp add: show_nat.simps [of n] show_nat_nonempty)
  qed
qed


lemma takeWhile_digits_append:
  "list_all is_digit ds \<Longrightarrow> number_end r \<Longrightarrow> takeWhile is_digit (ds @ r) = ds"
  by (induction ds) (auto simp: number_end_def split: list.splits)


lemma number_end_parts:
  assumes "number_end r"
  shows "frac_digits r = []" and "exp_part r = (False, [], r)"
  using assms
  by (auto simp: number_end_def frac_digits_def exp_part_def starts_with_def split: list.splits)

lemma int_digits_show_nat:
  assumes "number_end r"
  shows "int_digits (show_nat n @ r) = show_nat n"
proof (cases "n = 0")
  case True
  then show ?thesis
    by (simp add: show_nat.simps [of 0] digit_char_def int_digits_def starts_with_def)
next
  case False
  obtain c cs where sn: "show_nat n = c # cs"
    using show_nat_nonempty [of n] by (cases "show_nat n") auto
  have "c \<noteq> CHR ''0''"
    using hd_show_nat_zero [of n] sn False by simp
  then have "int_digits (show_nat n @ r) = takeWhile is_digit (show_nat n @ r)"
    by (simp add: sn int_digits_def starts_with_def)
  then show ?thesis
    by (simp add: takeWhile_digits_append [OF show_nat_digits assms])
qed

lemma show_nat_no_minus: "\<not> starts_with (CHR ''-'') (show_nat n @ r)"
proof -
  obtain c cs where sn: "show_nat n = c # cs"
    using show_nat_nonempty [of n] by (cases "show_nat n") auto
  have "is_digit c"
    using show_nat_digits [of n] sn by simp
  then have "c \<noteq> CHR ''-''"
    by (auto simp: is_digit_def)
  then show ?thesis by (simp add: sn starts_with_def)
qed

lemma parse_number_show_nat:
  assumes "number_end r"
  shows "parse_number (show_nat n @ r) = Some (JInt (int n), r)"
  by (simp add: parse_number_def show_nat_no_minus int_digits_show_nat [OF assms]
      number_end_parts [OF assms] show_nat_nonempty digits_val_show_nat)

lemma parse_number_minus_show_nat:
  assumes "number_end r"
  shows "parse_number (CHR ''-'' # show_nat n @ r) = Some (JInt (- int n), r)"
  by (simp add: parse_number_def starts_with_def int_digits_show_nat [OF assms]
      number_end_parts [OF assms] show_nat_nonempty digits_val_show_nat)

lemma parse_number_show_int:
  assumes "number_end r"
  shows "parse_number (show_int i @ r) = Some (JInt i, r)"
  by (simp add: show_int_def parse_number_show_nat [OF assms]
      parse_number_minus_show_nat [OF assms])


lemma num_char_facts:
  assumes "is_digit c \<or> c = CHR ''-''"
  shows "\<not> is_ws c" "c \<noteq> CHR ''{''" "c \<noteq> CHR ''[''" "c \<noteq> dq"
    "c \<noteq> CHR ''n''" "c \<noteq> CHR ''t''" "c \<noteq> CHR ''f''"
  using assms by (auto simp: is_digit_def is_ws_def dq_def)

lemma parse_value_number:
  assumes "num_start a"
  shows "parse_value (Suc n) (a @ r) = parse_number (a @ r)"
    and "parse_value (Suc n) (CHR '' '' # a @ r) = parse_number (a @ r)"
proof -
  obtain c cs where a: "a = c # cs" and c: "is_digit c \<or> c = CHR ''-''"
    using assms by (auto simp: num_start_def split: list.splits)
  note f = num_char_facts [OF c]
  have sk: "skip_ws (c # cs @ r) = c # cs @ r"
    using f(1) by (simp add: skip_ws_def)
  then have sk2: "skip_ws (CHR '' '' # c # cs @ r) = c # cs @ r"
    by (simp add: skip_ws_def is_ws_def)
  have pv: "\<And>s. skip_ws s = c # cs @ r \<Longrightarrow> parse_value (Suc n) s = parse_number (c # cs @ r)"
    using f(2-7) by (simp add: parse_value.simps starts_with_def)
  show "parse_value (Suc n) (a @ r) = parse_number (a @ r)"
    using pv [OF sk] by (simp add: a)
  show "parse_value (Suc n) (CHR '' '' # a @ r) = parse_number (a @ r)"
    using pv [OF sk2] by (simp add: a)
qed


lemma num_start_show_int: "num_start (show_int i)"
proof -
  have "\<And>n. num_start (show_nat n)"
  proof -
    fix n
    obtain c cs where sn: "show_nat n = c # cs"
      using show_nat_nonempty [of n] by (cases "show_nat n") auto
    then show "num_start (show_nat n)"
      using show_nat_digits [of n] by (simp add: num_start_def)
  qed
  then show ?thesis
    by (simp add: show_int_def num_start_def)
qed

lemma parse_str_body_key:
  "parse_str_body (''freq'' @ dq # r) [] = Some (''freq'', r)"
  "parse_str_body (''duty'' @ dq # r) [] = Some (''duty'', r)"
  by (simp_all add: dq_def)

lemma parse_members_last:
  assumes "skip_ws s = dq # ks" and "parse_str_body ks [] = Some (k, r)"
    and "skip_ws r = CHR '':'' # r1" and "parse_value n r1 = Some (v, r2)"
    and "skip_ws r2 = CHR ''}'' # r3"
  shows "parse_members (Suc n) s acc = Some (JObj (acc @ [(k, v)]), r3)"
  by (simp add: parse_members.simps assms starts_with_def)

lemma parse_members_more:
  assumes "skip_ws s = dq # ks" and "parse_str_body ks [] = Some (k, r)"
    and "skip_ws r = CHR '':'' # r1" and "parse_value n r1 = Some (v, r2)"
    and "skip_ws r2 = CHR '','' # r3"
  shows "parse_members (Suc n) s acc = parse_members n r3 (acc @ [(k, v)])"
  by (simp add: parse_members.simps assms starts_with_def)

lemma parse_value_object:
  assumes "skip_ws s = CHR ''{'' # r" and "skip_ws r = r1" and "\<not> starts_with (CHR ''}'') r1"
  shows "parse_value (Suc n) s = parse_members n r1 []"
  using assms(3) by (simp add: parse_value.simps assms(1,2) starts_with_def)

lemma skip_ws_simps:
  "skip_ws [] = []"
  "\<not> is_ws c \<Longrightarrow> skip_ws (c # s) = c # s"
  "skip_ws (CHR '' '' # s) = skip_ws s"
  by (simp_all add: skip_ws_def is_ws_def)

lemma not_ws_chars:
  "\<not> is_ws dq" "\<not> is_ws (CHR ''{'')" "\<not> is_ws (CHR ''}'')" "\<not> is_ws (CHR '':'')"
  "\<not> is_ws (CHR '','')"
  by (simp_all add: is_ws_def dq_def)

lemma json_loads_cmd_text:
  assumes a: "num_start a" and b: "num_start b"
    and pa: "parse_number (a @ '', '' @ json_key ''duty'' @ '': '' @ b @ ''}'')
               = Some (va, '', '' @ json_key ''duty'' @ '': '' @ b @ ''}'')"
    and pb: "parse_number (b @ ''}'') = Some (vb, ''}'')"
  shows "json_loads (cmd_text a b) = Some (JObj [(''freq'', va), (''duty'', vb)])"
proof -
  let ?tail = "'', '' @ json_key ''duty'' @ '': '' @ b @ ''}''"
  obtain k where fuel: "2 * length (cmd_text a b) + 2 = Suc (Suc (Suc (Suc k)))"
    by (simp add: cmd_text_def)
  have vb: "parse_value (Suc k) (CHR '' '' # b @ ''}'') = Some (vb, ''}'')"
    using parse_value_number(2) [OF b] pb by simp
  have second: "parse_members (Suc (Suc k)) (CHR '' '' # json_key ''duty'' @ '': '' @ b @ ''}'')
                  [(''freq'', va)]
                = Some (JObj ([(''freq'', va)] @ [(''duty'', vb)]), [])"
  proof (rule parse_members_last [OF _ _ _ vb])
    show "skip_ws (CHR '' '' # json_key ''duty'' @ '': '' @ b @ ''}'')
            = dq # ''duty'' @ dq # '': '' @ b @ ''}''"
      by (simp add: skip_ws_simps not_ws_chars json_key_def)
    show "parse_str_body (''duty'' @ dq # '': '' @ b @ ''}'') [] = Some (''duty'', '': '' @ b @ ''}'')"
      by (rule parse_str_body_key)
    show "skip_ws ('': '' @ b @ ''}'') = CHR '':'' # CHR '' '' # b @ ''}''"
      by (simp add: skip_ws_simps not_ws_chars)
    show "skip_ws ''}'' = CHR ''}'' # []"
      by (simp add: skip_ws_simps not_ws_chars)
  qed
  have va: "parse_value (Suc (Suc k)) (CHR '' '' # a @ ?tail) = Some (va, ?tail)"
    using parse_value_number(2) [OF a] pa by simp
  have "parse_members (Suc (Suc (Suc k))) (json_key ''freq'' @ '': '' @ a @ ?tail) []
          = parse_members (Suc (Suc k)) (CHR '' '' # json_key ''duty'' @ '': '' @ b @ ''}'')
              ([] @ [(''freq'', va)])"
  proof (rule parse_members_more [OF _ _ _ va])
    show "skip_ws (json_key ''freq'' @ '': '' @ a @ ?tail) = dq # ''freq'' @ dq # '': '' @ a @ ?tail"
      by (simp add: skip_ws_simps not_ws_chars json_key_def)
    show "parse_str_body (''freq'' @ dq # '': '' @ a @ ?tail) [] = Some (''freq'', '': '' @ a @ ?tail)"
      by (rule parse_str_body_key)
    show "skip_ws ('': '' @ a @ ?tail) = CHR '':'' # CHR '' '' # a @ ?tail"
      by (simp add: skip_ws_simps not_ws_chars)
    show "skip_ws ?tail = CHR '','' # CHR '' '' # json_key ''duty'' @ '': '' @ b @ ''}''"
      by (simp add: skip_ws_simps not_ws_chars)
  qed
  with second have first:
    "parse_members (Suc (Suc (Suc k))) (json_key ''freq'' @ '': '' @ a @ ?tail) []
       = Some (JObj [(''freq'', va), (''duty'', vb)], [])"
    by simp
  have sk: "skip_ws (cmd_text a b) = CHR ''{'' # json_key ''freq'' @ '': '' @ a @ ?tail"
    by (simp add: cmd_text_def skip_ws_simps not_ws_chars)
  have sk2: "skip_ws (json_key ''freq'' @ '': '' @ a @ ?tail) = json_key ''freq'' @ '': '' @ a @ ?tail"
    by (simp add: skip_ws_simps not_ws_chars json_key_def)
  have "\<not> starts_with (CHR ''}'') (json_key ''freq'' @ '': '' @ a @ ?tail)"
    by (simp add: starts_with_def json_key_def dq_def)
  from parse_value_object [OF sk sk2 this, of "Suc (Suc (Suc k))"] first
  have "parse_value (Suc (Suc (Suc (Suc k)))) (cmd_text a b)
          = Some (JObj [(''freq'', va), (''duty'', vb)], [])"
    by simp
  then show ?thesis
    unfolding json_loads_def fuel by (simp add: skip_ws_simps)
qed

section \<open>The fuel of the parser\<close>

lemma length_skip_ws: "length (skip_ws s) \<le> length s"
  by (simp add: skip_ws_def length_dropWhile_le)

lemma parse_str_body_shorter:
  "parse_str_body s acc = Some (x, r) \<Longrightarrow> length r < length s"
proof (induction s acc rule: parse_str_body.induct)
  case (1 acc)
  then show ?case by simp
next
  case (2 c r' acc)
  then show ?case
    by (auto split: if_splits list.splits option.splits) fastforce+
qed

lemma length_int_digits: "length (int_digits s) \<le> length s"
proof (cases "starts_with (CHR ''0'') s")
  case True
  then have "s \<noteq> []" by (auto simp: starts_with_def)
  then have "1 \<le> length s" by (cases s) simp_all
  with True show ?thesis by (simp add: int_digits_def)
next
  case False
  then show ?thesis by (simp add: int_digits_def length_takeWhile_le)
qed

lemma length_exp_part: "length (snd (snd (exp_part s))) \<le> length s"
  by (auto simp: exp_part_def Let_def)

lemma parse_number_shorter:
  assumes "parse_number s = Some (v, r)"
  shows "length r < length s"
proof -
  define s1 where "s1 = (if starts_with (CHR ''-'') s then tl s else s)"
  define ds where "ds = int_digits s1"
  define s2 where "s2 = drop (length ds) s1"
  define fd where "fd = frac_digits s2"
  define s3 where "s3 = (if fd = [] then s2 else drop (length fd) (tl s2))"
  have r: "r = snd (snd (exp_part s3))" and ne: "ds \<noteq> []"
    using assms
    by (auto simp: parse_number_def Let_def s1_def ds_def s2_def fd_def s3_def
        split: prod.splits if_splits)
  have a: "length s1 \<le> length s" by (simp add: s1_def)
  have b: "length ds \<le> length s1" by (simp add: ds_def length_int_digits)
  have c: "0 < length ds" using ne by simp
  have d: "length s2 = length s1 - length ds" by (simp add: s2_def)
  have e: "length s3 \<le> length s2" by (simp add: s3_def)
  have f: "length r \<le> length s3" by (simp add: r length_exp_part)
  from a b c d e f show ?thesis by linarith
qed


lemma starts_with_length: "starts_with c s \<Longrightarrow> length (tl s) < length s"
  by (cases s) (simp_all add: starts_with_def)

lemma parse_value_leaf:
  assumes "\<not> starts_with (CHR ''{'') (skip_ws s)" and "\<not> starts_with (CHR ''['') (skip_ws s)"
  shows "parse_value (Suc n) s = parse_value (Suc m) s"
  using assms by (simp add: parse_value.simps Let_def)

lemma take_eq_length: "take k s = t \<Longrightarrow> length t = k \<Longrightarrow> k \<le> length s"
  by (metis length_take min.cobounded1 min.commute)

lemma parse_value_leaf_shorter:
  assumes "\<not> starts_with (CHR ''{'') (skip_ws s)" and "\<not> starts_with (CHR ''['') (skip_ws s)"
    and "parse_value (Suc n) s = Some (v, r)"
  shows "length r < length s"
proof -
  let ?s = "skip_ws s"
  have le: "length ?s \<le> length s" by (rule length_skip_ws)
  consider (str) "starts_with dq ?s"
    | (null) "\<not> starts_with dq ?s" "take 4 ?s = ''null''"
    | (true) "\<not> starts_with dq ?s" "take 4 ?s \<noteq> ''null''" "take 4 ?s = ''true''"
    | (false) "\<not> starts_with dq ?s" "take 4 ?s \<noteq> ''null''" "take 4 ?s \<noteq> ''true''"
        "take 5 ?s = ''false''"
    | (num) "\<not> starts_with dq ?s" "take 4 ?s \<noteq> ''null''" "take 4 ?s \<noteq> ''true''"
        "take 5 ?s \<noteq> ''false''"
    by blast
  then have "length r < length ?s"
  proof cases
    case str
    then obtain x where "parse_str_body (tl ?s) [] = Some (x, r)"
      using assms by (auto simp: parse_value.simps Let_def split: option.splits)
    then have "length r < length (tl ?s)" by (rule parse_str_body_shorter)
    then show ?thesis by simp
  next
    case null
    then have "r = drop 4 ?s" using assms by (simp add: parse_value.simps Let_def)
    moreover have "4 \<le> length ?s" using null(2) by (rule take_eq_length) simp
    ultimately show ?thesis by simp
  next
    case true
    then have "r = drop 4 ?s" using assms by (simp add: parse_value.simps Let_def)
    moreover have "4 \<le> length ?s" using true(3) by (rule take_eq_length) simp
    ultimately show ?thesis by simp
  next
    case false
    then have "r = drop 5 ?s" using assms by (simp add: parse_value.simps Let_def)
    moreover have "5 \<le> length ?s" using false(4) by (rule take_eq_length) simp
    ultimately show ?thesis by simp
  next
    case num
    then have "parse_number ?s = Some (v, r)"
      using assms by (simp add: parse_value.simps Let_def)
    then show ?thesis by (rule parse_number_shorter)
  qed
  with le show ?thesis by simp
qed


lemma parse_value_fuel_step:
  assumes elems: "\<And>s acc v r. parse_elems n s acc = Some (v, r) \<Longrightarrow>
            length r < length s \<and> (\<forall>m. fuel_ok 2 m s r \<longrightarrow> parse_elems m s acc = Some (v, r))"
    and members: "\<And>s acc v r. parse_members n s acc = Some (v, r) \<Longrightarrow>
            length r < length s \<and> (\<forall>m. fuel_ok 2 m s r \<longrightarrow> parse_members m s acc = Some (v, r))"
    and p: "parse_value (Suc n) s = Some (v, r)"
  shows "length r < length s \<and> (\<forall>m. fuel_ok 1 m s r \<longrightarrow> parse_value m s = Some (v, r))"
proof -
  let ?s = "skip_ws s"
  have le: "length ?s \<le> length s" by (rule length_skip_ws)
  consider (obj) "starts_with (CHR ''{'') ?s"
    | (arr) "\<not> starts_with (CHR ''{'') ?s" "starts_with (CHR ''['') ?s"
    | (leaf) "\<not> starts_with (CHR ''{'') ?s" "\<not> starts_with (CHR ''['') ?s"
    by blast
  then show ?thesis
  proof cases
    case leaf
    have sh: "length r < length s"
      using parse_value_leaf_shorter [OF leaf p] .
    have "parse_value m s = Some (v, r)" if "fuel_ok 1 m s r" for m
    proof -
      from that sh obtain m' where "m = Suc m'"
        by (cases m) (auto simp: fuel_ok_def)
      then show ?thesis
        using parse_value_leaf [OF leaf, of m' n] p by simp
    qed
    with sh show ?thesis by blast
  next
    case obj
    let ?r1 = "skip_ws (tl ?s)"
    have l1: "length ?r1 < length s"
      using starts_with_length [OF obj] length_skip_ws [of "tl ?s"] le by linarith
    show ?thesis
    proof (cases "starts_with (CHR ''}'') ?r1")
      case True
      have eq: "parse_value (Suc k) s = Some (JObj [], tl ?r1)" for k
        using obj True by (simp add: parse_value.simps Let_def)
      have vr: "v = JObj []" "r = tl ?r1"
        using eq [of n] p by simp_all
      have sh: "length r < length s"
        using starts_with_length [OF True] l1 unfolding vr by linarith
      have "parse_value m s = Some (v, r)" if "fuel_ok 1 m s r" for m
      proof -
        from that sh obtain m' where "m = Suc m'"
          by (cases m) (auto simp: fuel_ok_def)
        then show ?thesis using eq [of m'] vr by simp
      qed
      with sh show ?thesis by blast
    next
      case False
      have eq: "parse_value (Suc k) s = parse_members k ?r1 []" for k
        using obj False by (simp add: parse_value.simps Let_def)
      have pm: "parse_members n ?r1 [] = Some (v, r)"
        using eq [of n] p by simp
      note ih = members [OF pm]
      have sh: "length r < length s" using ih l1 by linarith
      have "parse_value m s = Some (v, r)" if "fuel_ok 1 m s r" for m
      proof -
        from that sh obtain m' where m: "m = Suc m'"
          by (cases m) (auto simp: fuel_ok_def)
        have "fuel_ok 2 m' ?r1 r"
          using that l1 by (simp add: fuel_ok_def m)
        then show ?thesis using ih eq [of m'] m by simp
      qed
      with sh show ?thesis by blast
    qed
  next
    case arr
    let ?r1 = "skip_ws (tl ?s)"
    have l1: "length ?r1 < length s"
      using starts_with_length [OF arr(2)] length_skip_ws [of "tl ?s"] le by linarith
    show ?thesis
    proof (cases "starts_with (CHR '']'') ?r1")
      case True
      have eq: "parse_value (Suc k) s = Some (JArr [], tl ?r1)" for k
        using arr True by (simp add: parse_value.simps Let_def)
      have vr: "v = JArr []" "r = tl ?r1"
        using eq [of n] p by simp_all
      have sh: "length r < length s"
        using starts_with_length [OF True] l1 unfolding vr by linarith
      have "parse_value m s = Some (v, r)" if "fuel_ok 1 m s r" for m
      proof -
        from that sh obtain m' where "m = Suc m'"
          by (cases m) (auto simp: fuel_ok_def)
        then show ?thesis using eq [of m'] vr by simp
      qed
      with sh show ?thesis by blast
    next
      case False
      have eq: "parse_value (Suc k) s = parse_elems k ?r1 []" for k
        using arr False by (simp add: parse_value.simps Let_def)
      have pm: "parse_elems n ?r1 [] = Some (v, r)"
        using eq [of n] p by simp
      note ih = elems [OF pm]
      have sh: "length r < length s" using ih l1 by linarith
      have "parse_value m s = Some (v, r)" if "fuel_ok 1 m s r" for m
      proof -
        from that sh obtain m' where m: "m = Suc m'"
          by (cases m) (auto simp: fuel_ok_def)
        have "fuel_ok 2 m' ?r1 r"
          using that l1 by (simp add: fuel_ok_def m)
        then show ?thesis using ih eq [of m'] m by simp
      qed
      with sh show ?thesis by blast
    qed
  qed
qed


lemma parse_elems_fuel_step:
  assumes val: "\<And>s v r. parse_value n s = Some (v, r) \<Longrightarrow>
            length r < length s \<and> (\<forall>m. fuel_ok 1 m s r \<longrightarrow> parse_value m s = Some (v, r))"
    and elems: "\<And>s acc v r. parse_elems n s acc = Some (v, r) \<Longrightarrow>
            length r < length s \<and> (\<forall>m. fuel_ok 2 m s r \<longrightarrow> parse_elems m s acc = Some (v, r))"
    and p: "parse_elems (Suc n) s acc = Some (v, r)"
  shows "length r < length s \<and> (\<forall>m. fuel_ok 2 m s r \<longrightarrow> parse_elems m s acc = Some (v, r))"
proof -
  obtain v1 r1 where pv: "parse_value n s = Some (v1, r1)"
    using p by (auto simp: parse_elems.simps split: option.splits)
  note ihv = val [OF pv]
  let ?r2 = "skip_ws r1"
  have l2: "length ?r2 < length s"
    using ihv length_skip_ws [of r1] by linarith
  have eq: "parse_elems (Suc k) s acc =
              (if starts_with (CHR '','') ?r2 then parse_elems k (tl ?r2) (acc @ [v1])
               else if starts_with (CHR '']'') ?r2 then Some (JArr (acc @ [v1]), tl ?r2)
               else None)"
    if "parse_value k s = Some (v1, r1)" for k
    using that by (simp add: parse_elems.simps Let_def)
  show ?thesis
  proof (cases "starts_with (CHR '','') ?r2")
    case True
    have pe: "parse_elems n (tl ?r2) (acc @ [v1]) = Some (v, r)"
      using eq [OF pv] p True by simp
    note ihe = elems [OF pe]
    have l3: "length (tl ?r2) < length ?r2"
      using starts_with_length [OF True] .
    have sh: "length r < length s"
      using ihe l3 l2 by linarith
    have "parse_elems m s acc = Some (v, r)" if "fuel_ok 2 m s r" for m
    proof -
      from that ihe l3 l2 obtain m' where m: "m = Suc m'"
        by (cases m) (auto simp: fuel_ok_def)
      have "fuel_ok 1 m' s r1"
        using that ihe l3 length_skip_ws [of r1] by (simp add: fuel_ok_def m)
      then have v: "parse_value m' s = Some (v1, r1)"
        using ihv by simp
      have "fuel_ok 2 m' (tl ?r2) r"
        using that l3 l2 by (simp add: fuel_ok_def m)
      then have "parse_elems m' (tl ?r2) (acc @ [v1]) = Some (v, r)"
        using ihe by simp
      then show ?thesis
        using eq [OF v] True by (simp add: m)
    qed
    with sh show ?thesis by blast
  next
    case False
    then have cl: "starts_with (CHR '']'') ?r2" and vr: "v = JArr (acc @ [v1])" "r = tl ?r2"
      using eq [OF pv] p by (auto split: if_splits)
    have l3: "length r < length ?r2"
      using starts_with_length [OF cl] unfolding vr .
    have sh: "length r < length s"
      using l3 l2 by linarith
    have "parse_elems m s acc = Some (v, r)" if "fuel_ok 2 m s r" for m
    proof -
      from that l3 l2 obtain m' where m: "m = Suc m'"
        by (cases m) (auto simp: fuel_ok_def)
      have "fuel_ok 1 m' s r1"
        using that l3 length_skip_ws [of r1] by (simp add: fuel_ok_def m)
      then have v: "parse_value m' s = Some (v1, r1)"
        using ihv by simp
      show ?thesis
        using eq [OF v] False cl vr by (simp add: m)
    qed
    with sh show ?thesis by blast
  qed
qed

lemma parse_members_fuel_step:
  assumes val: "\<And>s v r. parse_value n s = Some (v, r) \<Longrightarrow>
            length r < length s \<and> (\<forall>m. fuel_ok 1 m s r \<longrightarrow> parse_value m s = Some (v, r))"
    and members: "\<And>s acc v r. parse_members n s acc = Some (v, r) \<Longrightarrow>
            length r < length s \<and> (\<forall>m. fuel_ok 2 m s r \<longrightarrow> parse_members m s acc = Some (v, r))"
    and p: "parse_members (Suc n) s acc = Some (v, r)"
  shows "length r < length s \<and> (\<forall>m. fuel_ok 2 m s r \<longrightarrow> parse_members m s acc = Some (v, r))"
proof -
  let ?s1 = "skip_ws s"
  have q: "starts_with dq ?s1"
  proof (rule ccontr)
    assume "\<not> starts_with dq ?s1"
    then have "parse_members (Suc n) s acc = None"
      by (simp add: parse_members.simps Let_def)
    with p show False by simp
  qed
  obtain k0 r0 where key: "parse_str_body (tl ?s1) [] = Some (k0, r0)"
  proof (cases "parse_str_body (tl ?s1) []")
    case None
    with q have "parse_members (Suc n) s acc = None"
      by (simp add: parse_members.simps Let_def)
    with p show ?thesis by simp
  next
    case (Some kr)
    with that show ?thesis by (cases kr) simp
  qed
  let ?r1 = "skip_ws r0"
  have colon: "starts_with (CHR '':'') ?r1"
  proof (rule ccontr)
    assume "\<not> starts_with (CHR '':'') ?r1"
    with q key have "parse_members (Suc n) s acc = None"
      by (simp add: parse_members.simps Let_def)
    with p show False by simp
  qed
  obtain v1 r2 where pv: "parse_value n (tl ?r1) = Some (v1, r2)"
  proof (cases "parse_value n (tl ?r1)")
    case None
    with q key colon have "parse_members (Suc n) s acc = None"
      by (simp add: parse_members.simps Let_def)
    with p show ?thesis by simp
  next
    case (Some vr)
    with that show ?thesis by (cases vr) simp
  qed
  note ihv = val [OF pv]
  let ?r3 = "skip_ws r2"
  have lk: "length (tl ?r1) < length s"
    using parse_str_body_shorter [OF key] starts_with_length [OF colon]
      length_skip_ws [of r0] length_skip_ws [of s] starts_with_length [OF q]
    by linarith
  have l3: "length ?r3 < length (tl ?r1)"
    using ihv length_skip_ws [of r2] by linarith
  have eq: "parse_members (Suc k) s acc =
              (if starts_with (CHR '','') ?r3 then parse_members k (tl ?r3) (acc @ [(k0, v1)])
               else if starts_with (CHR ''}'') ?r3 then Some (JObj (acc @ [(k0, v1)]), tl ?r3)
               else None)"
    if "parse_value k (tl ?r1) = Some (v1, r2)" for k
    using that q key colon by (simp add: parse_members.simps Let_def)
  show ?thesis
  proof (cases "starts_with (CHR '','') ?r3")
    case True
    have pe: "parse_members n (tl ?r3) (acc @ [(k0, v1)]) = Some (v, r)"
      using eq [OF pv] p True by simp
    note ihe = members [OF pe]
    have l4: "length (tl ?r3) < length ?r3"
      using starts_with_length [OF True] .
    have sh: "length r < length s"
      using ihe l4 l3 lk by linarith
    have "parse_members m s acc = Some (v, r)" if "fuel_ok 2 m s r" for m
    proof -
      from that ihe l4 l3 lk obtain m' where m: "m = Suc m'"
        by (cases m) (auto simp: fuel_ok_def)
      have "fuel_ok 1 m' (tl ?r1) r2"
        using that ihe l4 lk length_skip_ws [of r2] by (simp add: fuel_ok_def m)
      then have v: "parse_value m' (tl ?r1) = Some (v1, r2)"
        using ihv by simp
      have "fuel_ok 2 m' (tl ?r3) r"
        using that l4 l3 lk by (simp add: fuel_ok_def m)
      then have "parse_members m' (tl ?r3) (acc @ [(k0, v1)]) = Some (v, r)"
        using ihe by simp
      then show ?thesis
        using eq [OF v] True by (simp add: m)
    qed
    with sh show ?thesis by blast
  next
    case False
    then have cl: "starts_with (CHR ''}'') ?r3" and vr: "v = JObj (acc @ [(k0, v1)])" "r = tl ?r3"
      using eq [OF pv] p by (auto split: if_splits)
    have l4: "length r < length ?r3"
      using starts_with_length [OF cl] unfolding vr .
    have sh: "length r < length s"
      using l4 l3 lk by linarith
    have "parse_members m s acc = Some (v, r)" if "fuel_ok 2 m s r" for m
    proof -
      from that l4 l3 lk obtain m' where m: "m = Suc m'"
        by (cases m) (auto simp: fuel_ok_def)
      have "fuel_ok 1 m' (tl ?r1) r2"
        using that l4 lk length_skip_ws [of r2] by (simp add: fuel_ok_def m)
      then have v: "parse_value m' (tl ?r1) = Some (v1, r2)"
        using ihv by simp
      show ?thesis
        using eq [OF v] False cl vr by (simp add: m)
    qed
    with sh show ?thesis by blast
  qed
qed

lemma fuel_enough:
  "(\<forall>s v r. parse_value n s = Some (v, r) \<longrightarrow>
      length r < length s \<and> (\<forall>m. fuel_ok 1 m s r \<longrightarrow> parse_value m s = Some (v, r)))
   \<and> (\<forall>s acc v r. parse_elems n s acc = Some (v, r) \<longrightarrow>
      length r < length s \<and> (\<forall>m. fuel_ok 2 m s r \<longrightarrow> parse_elems m s acc = Some (v, r)))
   \<and> (\<forall>s acc v r. parse_members n s acc = Some (v, r) \<longrightarrow>
      length r < length s \<and> (\<forall>m. fuel_ok 2 m s r \<longrightarrow> parse_members m s acc = Some (v, r)))"
proof (induction n)
  case 0
  show ?case by (simp add: parse_value.simps parse_elems.simps parse_members.simps)
next
  case (Suc n)
  from Suc have iv: "\<forall>s v r. parse_value n s = Some (v, r) \<longrightarrow>
      length r < length s \<and> (\<forall>m. fuel_ok 1 m s r \<longrightarrow> parse_value m s = Some (v, r))"
    by (rule conjunct1)
  from Suc have ie: "\<forall>s acc v r. parse_elems n s acc = Some (v, r) \<longrightarrow>
      length r < length s \<and> (\<forall>m. fuel_ok 2 m s r \<longrightarrow> parse_elems m s acc = Some (v, r))"
    by (rule conjunct2 [THEN conjunct1])
  from Suc have im: "\<forall>s acc v r. parse_members n s acc = Some (v, r) \<longrightarrow>
      length r < length s \<and> (\<forall>m. fuel_ok 2 m s r \<longrightarrow> parse_members m s acc = Some (v, r))"
    by (rule conjunct2 [THEN conjunct2])
  note ihv = iv [rule_format] and ihe = ie [rule_format] and ihm = im [rule_format]
  have a: "\<forall>s v r. parse_value (Suc n) s = Some (v, r) \<longrightarrow>
      length r < length s \<and> (\<forall>m. fuel_ok 1 m s r \<longrightarrow> parse_value m s = Some (v, r))"
    by (intro allI impI) (rule parse_value_fuel_step [OF ihe ihm])
  have b: "\<forall>s acc v r. parse_elems (Suc n) s acc = Some (v, r) \<longrightarrow>
      length r < length s \<and> (\<forall>m. fuel_ok 2 m s r \<longrightarrow> parse_elems m s acc = Some (v, r))"
    by (intro allI impI) (rule parse_elems_fuel_step [OF ihv ihe])
  have c: "\<forall>s acc v r. parse_members (Suc n) s acc = Some (v, r) \<longrightarrow>
      length r < length s \<and> (\<forall>m. fuel_ok 2 m s r \<longrightarrow> parse_members m s acc = Some (v, r))"
    by (intro allI impI) (rule parse_members_fuel_step [OF ihv ihm])
  from a b c show ?case by (intro conjI)
qed

text \<open>
  The fuel of \<open>json_loads\<close> is enough: a parse of the whole text that succeeds with
  some fuel succeeds in \<open>json_loads\<close>.
\<close>

lemma json_loads_fuel_enough:
  assumes "parse_value n s = Some (v, r)" and "skip_ws r = []"
  shows "json_loads s = Some v"
proof -
  have "fuel_ok 1 (2 * length s + 2) s r"
    by (simp add: fuel_ok_def)
  with fuel_enough [of n, THEN conjunct1, rule_format, OF assms(1)]
  have "parse_value (2 * length s + 2) s = Some (v, r)"
    by blast
  then show ?thesis
    by (simp add: json_loads_def assms(2))
qed

section \<open>Decoding a command line\<close>

lemma strip_line:
  assumes "\<not> is_space c" and "\<not> is_space d"
  shows "strip (c # m @ [d] @ ''\<newline>'') = c # m @ [d]"
  using assms by (simp add: strip_def is_space_def)

lemma strip_cmd_text: "strip (cmd_text a b @ ''\<newline>'') = cmd_text a b"
proof -
  let ?m = "json_key ''freq'' @ '': '' @ a @ '', '' @ json_key ''duty'' @ '': '' @ b"
  have e: "cmd_text a b = CHR ''{'' # ?m @ [CHR ''}'']"
    by (simp add: cmd_text_def)
  have "strip (CHR ''{'' # ?m @ [CHR ''}''] @ ''\<newline>'') = CHR ''{'' # ?m @ [CHR ''}'']"
    by (rule strip_line) (simp_all add: is_space_def)
  then show ?thesis
    unfolding e by simp
qed

lemma dict_get_key: "dict_get kvs k = Some v \<Longrightarrow> k \<in> set (map fst kvs)"
proof -
  assume "dict_get kvs k = Some v"
  then have "(k, v) \<in> set (rev kvs)"
    unfolding dict_get_def by (rule map_of_SomeD)
  then show ?thesis by force
qed

lemma parse_cmd_dict:
  assumes "dict_get kvs ''freq'' = Some vf" and "dict_get kvs ''duty'' = Some vd"
  shows "parse_cmd P (Some (JObj kvs)) =
           (case py_int P vf of
              Inl e \<Rightarrow> Inl e
            | Inr freq \<Rightarrow>
                (case py_int P vd of
                   Inl e \<Rightarrow> Inl e
                 | Inr duty \<Rightarrow>
                     if freq < 1000 \<or> freq > 1000000 \<or> duty < 0 \<or> duty > 65535
                     then Inl (ValueError ''invalid freq or duty'')
                     else Inr (freq, duty)))"
proof -
  have ne: "kvs \<noteq> []"
    using dict_get_key [OF assms(1)] by auto
  show ?thesis
    using ne dict_get_key [OF assms(1)] dict_get_key [OF assms(2)]
    by (simp add: parse_cmd_def assms split: sum.splits)
qed

lemma dict_get_cmd:
  "dict_get [(''freq'', vf), (''duty'', vd)] ''freq'' = Some vf"
  "dict_get [(''freq'', vf), (''duty'', vd)] ''duty'' = Some vd"
  by (simp_all add: dict_get_def)

lemma decode_cmd_text:
  assumes "num_start a" and "num_start b"
    and "parse_number (a @ '', '' @ json_key ''duty'' @ '': '' @ b @ ''}'')
               = Some (va, '', '' @ json_key ''duty'' @ '': '' @ b @ ''}'')"
    and "parse_number (b @ ''}'') = Some (vb, ''}'')"
  shows "decode_line P (cmd_text a b @ ''\<newline>'')
           = parse_cmd P (Some (JObj [(''freq'', va), (''duty'', vb)]))"
  by (simp add: decode_line_def load_cmd_def strip_cmd_text json_loads_cmd_text [OF assms])

lemma number_end_chars:
  "number_end (CHR '','' # r)" "number_end (CHR ''}'' # r)"
  by (simp_all add: number_end_def is_digit_def)

lemma decode_int_cmd:
  "decode_line P (cmd_text (show_int f) (show_int d) @ ''\<newline>'')
     = (if f < 1000 \<or> f > 1000000 \<or> d < 0 \<or> d > 65535
        then Inl (ValueError ''invalid freq or duty'') else Inr (f, d))"
proof -
  have "decode_line P (cmd_text (show_int f) (show_int d) @ ''\<newline>'')
          = parse_cmd P (Some (JObj [(''freq'', JInt f), (''duty'', JInt d)]))"
  proof (rule decode_cmd_text)
    show "num_start (show_int f)" "num_start (show_int d)"
      by (rule num_start_show_int)+
    show "parse_number (show_int f @ '', '' @ json_key ''duty'' @ '': '' @ show_int d @ ''}'')
            = Some (JInt f, '', '' @ json_key ''duty'' @ '': '' @ show_int d @ ''}'')"
      by (rule parse_number_show_int) (simp add: number_end_chars)
    show "parse_number (show_int d @ ''}'') = Some (JInt d, ''}'')"
      by (rule parse_number_show_int) (simp add: number_end_chars)
  qed
  then show ?thesis
    by (simp add: parse_cmd_dict [OF dict_get_cmd])
qed

text \<open>
  C7. For integers \<open>f\<close> in \<open>[1000, 1000000]\<close> and \<open>d\<close> in \<open>[0, 65535]\<close>, \<open>set_pwm\<close> writes the
  JSON text of \<open>{"freq": f, "duty": d}\<close> followed by a newline, and the device, decoding
  that line (strip, parse, key check, \<open>int\<close> coercion, range check), obtains exactly
  \<open>freq = f\<close> and \<open>duty = d\<close>, on every platform.
\<close>

theorem encode_decode_roundtrip:
  assumes "1000 \<le> f" and "f \<le> 1000000" and "0 \<le> d" and "d \<le> 65535"
  shows "set_pwm float_repr (PyInt f) (PyInt d) port
           = port @ [dumps_pwm_cmd float_repr (PyInt f) (PyInt d) @ ''\<newline>'']
       \<and> decode_line P (dumps_pwm_cmd float_repr (PyInt f) (PyInt d) @ ''\<newline>'') = Inr (f, d)"
  using assms
  by (simp add: set_pwm_def dumps_pwm_cmd_def dumps_num_def decode_int_cmd)

lemma show_int_samples:
  "show_int 10000 = ''10000''" "show_int 32768 = ''32768''"
  "show_int 500 = ''500''" "show_int 100 = ''100''"
  by (simp_all add: show_int_def show_nat.simps digit_char_def)

theorem encode_decode_roundtrip_witness:
  "(1000::int) \<le> 10000 \<and> (10000::int) \<le> 1000000 \<and> (0::int) \<le> 32768 \<and> (32768::int) \<le> 65535
   \<and> set_pwm sample_float_repr (PyInt 10000) (PyInt 32768) []
       = [cmd_text ''10000'' ''32768'' @ ''\<newline>'']
   \<and> decode_line sample_platform (cmd_text ''10000'' ''32768'' @ ''\<newline>'') = Inr (10000, 32768)"
  using encode_decode_roundtrip [of 10000 32768 sample_float_repr "[]" sample_platform]
  by (simp add: dumps_pwm_cmd_def dumps_num_def show_int_samples)

section \<open>The command loop on rejected lines\<close>

lemma main_iteration_decode_error:
  assumes "decode_line P line = Inl e"
  shows "main_iteration P now (PollLine line) dv
           = set_monitor_cmd (MCmd_init False ''C Error'' (exn_str P e) 1000) dv"
  by (simp add: main_iteration_def try_command_def assms)


lemma json_loads_empty_object: "json_loads ''{}'' = Some (JObj [])"
  by (simp add: json_loads_def parse_value.simps skip_ws_def is_ws_def starts_with_def
      eval_nat_numeral)

lemma strip_empty_object: "strip ''{}\<newline>'' = ''{}''"
  by (simp add: strip_def is_space_def)

text \<open>
  C10. A line whose text parses to a falsy value (the empty object, the empty array,
  \<open>0\<close>, \<open>null\<close>, \<open>false\<close> or the empty string are falsy) is rejected with
  \<open>ValueError("invalid cmd")\<close>, before the test for the keys: the command loop reports
  it as a "C Error" with that text, not as a missing field. This holds for the empty
  object too.
\<close>

theorem falsy_cmd_is_invalid_cmd:
  assumes "load_cmd (strip line) = Some v" and "\<not> truthy v"
  shows "decode_line P line = Inl (ValueError ''invalid cmd'')
       \<and> main_iteration P now (PollLine line) dv
           = set_monitor_cmd
               (MCmd_init False ''C Error'' (exn_str P (ValueError ''invalid cmd'')) 1000) dv
       \<and> \<not> truthy (JObj []) \<and> \<not> truthy (JArr []) \<and> \<not> truthy (JInt 0)
       \<and> \<not> truthy JNull \<and> \<not> truthy (JBool False) \<and> \<not> truthy (JStr [])"
proof -
  have d: "decode_line P line = Inl (ValueError ''invalid cmd'')"
    using assms by (simp add: decode_line_def parse_cmd_def)
  show ?thesis
    by (simp add: d main_iteration_decode_error [OF d])
qed

theorem falsy_cmd_is_invalid_cmd_witness:
  "load_cmd (strip ''{}\<newline>'') = Some (JObj []) \<and> \<not> truthy (JObj [])
   \<and> decode_line sample_platform ''{}\<newline>'' = Inl (ValueError ''invalid cmd'')
   \<and> monitor_cmd (main_iteration sample_platform 0 (PollLine ''{}\<newline>'') device_init)
       = MCmd_init False ''C Error'' ''invalid cmd'' 1000"
proof -
  have l: "load_cmd (strip ''{}\<newline>'') = Some (JObj [])"
    by (simp add: load_cmd_def strip_empty_object json_loads_empty_object)
  have t: "\<not> truthy (JObj [])" by simp
  from falsy_cmd_is_invalid_cmd [OF l t, of sample_platform 0 device_init] l
  show ?thesis
    by (simp add: set_monitor_cmd_def sample_platform_def sample_exn_str_def)
qed



section \<open>Numbers that are not integers\<close>

lemma py_int_json_num:
  assumes "json_num v = Some x"
  shows "py_int P v = Inr (py_trunc x)"
  using assms by (cases v) (auto simp: json_num_def py_trunc_def)

lemma parse_number_samples:
  "parse_number (''1000.5'' @ CHR '','' # r) = Some (JFloat (2001 / 2), CHR '','' # r)"
  "parse_number (''999.9'' @ CHR '','' # r) = Some (JFloat (9999 / 10), CHR '','' # r)"
  "parse_number ''1.5}'' = Some (JFloat (3 / 2), ''}'')"
  by (simp_all add: parse_number_def int_digits_def frac_digits_def exp_part_def
      starts_with_def is_digit_def digits_val_def digit_val_def scale10_def)

lemma num_start_samples: "num_start ''1000.5''" "num_start ''999.9''" "num_start ''1.5''"
  by (simp_all add: num_start_def is_digit_def)

lemma load_float_cmd:
  "load_cmd (strip (cmd_text ''1000.5'' ''1.5'' @ ''\<newline>''))
     = Some (JObj [(''freq'', JFloat (2001 / 2)), (''duty'', JFloat (3 / 2))])"
  "load_cmd (strip (cmd_text ''999.9'' ''1.5'' @ ''\<newline>''))
     = Some (JObj [(''freq'', JFloat (9999 / 10)), (''duty'', JFloat (3 / 2))])"
proof -
  let ?tail = "CHR '' '' # json_key ''duty'' @ '': '' @ ''1.5'' @ ''}''"
  have d: "parse_number (''1.5'' @ ''}'') = Some (JFloat (3 / 2), ''}'')"
    using parse_number_samples(3) by simp
  have "parse_number (''1000.5'' @ '', '' @ json_key ''duty'' @ '': '' @ ''1.5'' @ ''}'')
          = Some (JFloat (2001 / 2), '', '' @ json_key ''duty'' @ '': '' @ ''1.5'' @ ''}'')"
    using parse_number_samples(1) [of ?tail] by simp
  from json_loads_cmd_text [OF num_start_samples(1) num_start_samples(3) this d]
  show "load_cmd (strip (cmd_text ''1000.5'' ''1.5'' @ ''\<newline>''))
     = Some (JObj [(''freq'', JFloat (2001 / 2)), (''duty'', JFloat (3 / 2))])"
    by (simp add: load_cmd_def strip_cmd_text)
  have "parse_number (''999.9'' @ '', '' @ json_key ''duty'' @ '': '' @ ''1.5'' @ ''}'')
          = Some (JFloat (9999 / 10), '', '' @ json_key ''duty'' @ '': '' @ ''1.5'' @ ''}'')"
    using parse_number_samples(2) [of ?tail] by simp
  from json_loads_cmd_text [OF num_start_samples(2) num_start_samples(3) this d]
  show "load_cmd (strip (cmd_text ''999.9'' ''1.5'' @ ''\<newline>''))
     = Some (JObj [(''freq'', JFloat (9999 / 10)), (''duty'', JFloat (3 / 2))])"
    by (simp add: load_cmd_def strip_cmd_text)
qed

lemma py_trunc_samples:
  "py_trunc (2001 / 2) = 1000" "py_trunc (9999 / 10) = 999" "py_trunc (3 / 2) = 1"
  "py_trunc (- (3 / 2)) = - 1"
  by (simp_all add: py_trunc_def)

lemma main_iteration_success:
  assumes "decode_line P line = Inr (freq, duty)"
    and "pwm_freq_exn P freq = None" and "pwm_duty_exn P duty = None"
  shows "main_iteration P now (PollLine line) dv
           = dv\<lparr>monitor_cmd := success_cmd P now freq duty,
                 trace := trace dv @ [Publish (success_cmd P now freq duty),
                                      PwmFreq freq, PwmDuty duty]\<rparr>"
  by (simp add: main_iteration_def try_command_def assms set_monitor_cmd_def call_def)

lemma sample_platform_simps:
  "pwm_freq_exn sample_platform freq = None"
  "pwm_duty_exn sample_platform duty = None"
  "draw_exn sample_platform t m = None"
  "exn_str sample_platform = sample_exn_str"
  "fmt_percent sample_platform = sample_fmt_percent"
  by (simp_all add: sample_platform_def)

text \<open>
  C3, as stated, fails: the line \<open>{"freq": 1000.5, "duty": 1.5}\<close> parses to an object
  with two non-integral numbers, and the decode does not fail: \<open>int()\<close> truncates them,
  the command \<open>(1000, 1)\<close> passes the range check and both PWM setters are called.
\<close>

theorem non_integral_number_is_accepted:
  "load_cmd (strip (cmd_text ''1000.5'' ''1.5'' @ ''\<newline>''))
     = Some (JObj [(''freq'', JFloat (2001 / 2)), (''duty'', JFloat (3 / 2))])
   \<and> decode_line sample_platform (cmd_text ''1000.5'' ''1.5'' @ ''\<newline>'') = Inr (1000, 1)
   \<and> trace (main_iteration sample_platform 0
               (PollLine (cmd_text ''1000.5'' ''1.5'' @ ''\<newline>'')) device_init)
       = trace device_init
           @ [Publish (success_cmd sample_platform 0 1000 1), PwmFreq 1000, PwmDuty 1]"
proof -
  have d: "decode_line sample_platform (cmd_text ''1000.5'' ''1.5'' @ ''\<newline>'') = Inr (1000, 1)"
    by (simp add: decode_line_def load_float_cmd parse_cmd_dict [OF dict_get_cmd] py_trunc_samples)
  show ?thesis
    by (simp add: load_float_cmd d main_iteration_success [OF d] sample_platform_simps
        device_init_def)
qed

text \<open>
  C3, amended. For a line that parses to an object with both keys whose values are
  numbers \<open>x\<close> and \<open>y\<close>, \<open>int()\<close> truncates each towards zero (an integer is unchanged)
  and the truncated values go to the range check: out of range they give
  \<open>ValueError("invalid freq or duty")\<close>, in range they are the decoded command.
\<close>

theorem non_integral_numbers_are_truncated:
  assumes "load_cmd (strip line) = Some (JObj kvs)"
    and "dict_get kvs ''freq'' = Some vf" and "dict_get kvs ''duty'' = Some vd"
    and "json_num vf = Some x" and "json_num vd = Some y"
  shows "decode_line P line =
           (if py_trunc x < 1000 \<or> py_trunc x > 1000000 \<or> py_trunc y < 0 \<or> py_trunc y > 65535
            then Inl (ValueError ''invalid freq or duty'')
            else Inr (py_trunc x, py_trunc y))"
  by (simp add: decode_line_def assms(1) parse_cmd_dict [OF assms(2,3)]
      py_int_json_num [OF assms(4)] py_int_json_num [OF assms(5)])

theorem non_integral_numbers_are_truncated_witness:
  "load_cmd (strip (cmd_text ''999.9'' ''1.5'' @ ''\<newline>''))
     = Some (JObj [(''freq'', JFloat (9999 / 10)), (''duty'', JFloat (3 / 2))])
   \<and> json_num (JFloat (9999 / 10)) = Some (9999 / 10) \<and> json_num (JFloat (3 / 2)) = Some (3 / 2)
   \<and> py_trunc (9999 / 10) = 999 \<and> py_trunc (3 / 2) = 1
   \<and> decode_line sample_platform (cmd_text ''999.9'' ''1.5'' @ ''\<newline>'')
       = Inl (ValueError ''invalid freq or duty'')"
proof -
  have n: "json_num (JFloat (9999 / 10)) = Some (9999 / 10)" "json_num (JFloat (3 / 2)) = Some (3 / 2)"
    by (simp_all add: json_num_def)
  from non_integral_numbers_are_truncated [OF load_float_cmd(2) dict_get_cmd n, of sample_platform]
  show ?thesis
    by (simp add: load_float_cmd n py_trunc_samples)
qed

section \<open>The command loop on accepted lines\<close>

lemma try_command_prefix:
  assumes "decode_line P line = Inr (freq, duty)"
  shows "take (length (trace dv) + 2) (trace (main_iteration P now (PollLine line) dv))
           = trace dv @ [Publish (success_cmd P now freq duty), PwmFreq freq]"
  by (simp add: main_iteration_def try_command_def assms set_monitor_cmd_def call_def Let_def
      split: option.splits)

text \<open>
  C2, amended. For a line that decodes to \<open>(freq, duty)\<close>, the pass of the command loop
  first assigns the success message (title \<open>PWM\<close> and the time, body with the frequency
  and the duty as a percentage with two decimals, hold time 10 ms), then calls
  \<open>laser_pwm.freq(freq)\<close>, and then, when that call does not raise,
  \<open>laser_pwm.duty_u16(duty)\<close>: the frequency is set before the duty, and the report
  precedes the actuation. When neither call raises these three are all the effects of the
  pass.
\<close>

theorem success_publishes_then_actuates:
  assumes "decode_line P line = Inr (freq, duty)"
  shows "take (length (trace dv) + 2) (trace (main_iteration P now (PollLine line) dv))
           = trace dv @ [Publish (success_cmd P now freq duty), PwmFreq freq]
       \<and> (pwm_freq_exn P freq = None \<longrightarrow> pwm_duty_exn P duty = None \<longrightarrow>
            main_iteration P now (PollLine line) dv
              = dv\<lparr>monitor_cmd := success_cmd P now freq duty,
                    trace := trace dv @ [Publish (success_cmd P now freq duty),
                                         PwmFreq freq, PwmDuty duty]\<rparr>)
       \<and> success_cmd P now freq duty
           = \<lparr>rendered = False, title = ''PWM '' @ show_int now,
              message = ''FREQ: '' @ show_int freq @ ''\<newline>DUTY: '' @ fmt_percent P duty @ ''%'',
              time = 10\<rparr>"
  using try_command_prefix [OF assms] main_iteration_success [OF assms]
  by (simp add: success_cmd_def MCmd_init_def)

lemma show_int_more:
  "show_int 0 = ''0''" "show_int 7 = ''7''" "show_int 1000 = ''1000''" "show_int 50 = ''50''"
  by (simp_all add: show_int_def show_nat.simps digit_char_def)

lemma sample_fmt_percent_samples:
  "sample_fmt_percent 32768 = ''50.00''" "sample_fmt_percent 0 = ''0.00''"
  by (simp_all add: sample_fmt_percent_def Let_def show_int_more digit_char_def)

theorem success_publishes_then_actuates_witness:
  "decode_line sample_platform (cmd_text ''1000'' ''0'' @ ''\<newline>'') = Inr (1000, 0)
   \<and> pwm_freq_exn sample_platform 1000 = None \<and> pwm_duty_exn sample_platform 0 = None
   \<and> main_iteration sample_platform 7 (PollLine (cmd_text ''1000'' ''0'' @ ''\<newline>'')) device_init
       = \<lparr>monitor_cmd = MCmd_init False ''PWM 7'' ''FREQ: 1000\<newline>DUTY: 0.00%'' 10,
          trace = [PwmDuty 0, Publish init_cmd,
                   Publish (MCmd_init False ''PWM 7'' ''FREQ: 1000\<newline>DUTY: 0.00%'' 10),
                   PwmFreq 1000, PwmDuty 0]\<rparr>"
proof -
  have d: "decode_line sample_platform (cmd_text ''1000'' ''0'' @ ''\<newline>'') = Inr (1000, 0)"
    using decode_int_cmd [of sample_platform 1000 0] by (simp add: show_int_more)
  from success_publishes_then_actuates [OF d, of device_init 7] d
  show ?thesis
    by (simp add: sample_platform_simps device_init_def MCmd_init_def show_int_more
        sample_fmt_percent_samples)
qed

text \<open>
  C2, as stated, fails: on the line \<open>{"freq": 10000, "duty": 32768}\<close> the effects of the
  pass are the success message first and the two PWM calls after it, not the PWM calls
  followed by the message.
\<close>

theorem report_precedes_actuation:
  "decode_line sample_platform (cmd_text ''10000'' ''32768'' @ ''\<newline>'') = Inr (10000, 32768)
   \<and> drop (length (trace device_init))
        (trace (main_iteration sample_platform 0
                  (PollLine (cmd_text ''10000'' ''32768'' @ ''\<newline>'')) device_init))
       = [Publish (MCmd_init False ''PWM 0'' ''FREQ: 10000\<newline>DUTY: 50.00%'' 10),
          PwmFreq 10000, PwmDuty 32768]
   \<and> drop (length (trace device_init))
        (trace (main_iteration sample_platform 0
                  (PollLine (cmd_text ''10000'' ''32768'' @ ''\<newline>'')) device_init))
       \<noteq> [PwmFreq 10000, PwmDuty 32768,
          Publish (MCmd_init False ''PWM 0'' ''FREQ: 10000\<newline>DUTY: 50.00%'' 10)]"
proof -
  have d: "decode_line sample_platform (cmd_text ''10000'' ''32768'' @ ''\<newline>'')
             = Inr (10000, 32768)"
    using decode_int_cmd [of sample_platform 10000 32768] by (simp add: show_int_samples)
  show ?thesis
    by (simp add: d main_iteration_success [OF d] sample_platform_simps success_cmd_def
        show_int_samples show_int_more sample_fmt_percent_samples)
qed

section \<open>The status mailbox\<close>

lemma monitor_iteration_rendered:
  "rendered (monitor_cmd dv) \<Longrightarrow> monitor_iteration P dv = dv"
  by (simp add: monitor_iteration_def)

lemma monitor_iteration_draws:
  assumes "\<not> rendered (monitor_cmd dv)"
    and "draw_exn P (title (monitor_cmd dv)) (message (monitor_cmd dv)) = None"
  shows "monitor_iteration P dv
           = dv\<lparr>monitor_cmd := (monitor_cmd dv)\<lparr>rendered := True\<rparr>,
                 trace := trace dv @ [Draw (title (monitor_cmd dv)) (message (monitor_cmd dv))]\<rparr>"
  using assms by (simp add: monitor_iteration_def call_def)

lemma run_monitor_rendered:
  "rendered (monitor_cmd dv) \<Longrightarrow> run P (replicate n MonitorStep) dv = dv"
  by (induction n) (simp_all add: monitor_iteration_rendered)

lemma draws_set_monitor_cmd:
  assumes "length (filter is_draw (trace dv)) + pending dv
             \<le> length (filter is_publish (trace dv))"
  shows "length (filter is_draw (trace (set_monitor_cmd m dv))) + pending (set_monitor_cmd m dv)
             \<le> length (filter is_publish (trace (set_monitor_cmd m dv)))"
  using assms by (simp add: set_monitor_cmd_def pending_def)

lemma draws_call_pwm:
  assumes "length (filter is_draw (trace dv)) + pending dv
             \<le> length (filter is_publish (trace dv))"
  shows "length (filter is_draw (trace (call (PwmFreq f) dv))) + pending (call (PwmFreq f) dv)
             \<le> length (filter is_publish (trace (call (PwmFreq f) dv)))"
    and "length (filter is_draw (trace (call (PwmDuty d) dv))) + pending (call (PwmDuty d) dv)
             \<le> length (filter is_publish (trace (call (PwmDuty d) dv)))"
  using assms by (simp_all add: call_def pending_def)

lemma draws_try_command:
  assumes "length (filter is_draw (trace dv)) + pending dv
             \<le> length (filter is_publish (trace dv))"
  shows "length (filter is_draw (trace (fst (try_command P now line dv))))
           + pending (fst (try_command P now line dv))
             \<le> length (filter is_publish (trace (fst (try_command P now line dv))))"
  using assms
  by (auto simp: try_command_def Let_def draws_set_monitor_cmd draws_call_pwm
      split: sum.splits option.splits prod.splits)

lemma draws_main_iteration:
  assumes "length (filter is_draw (trace dv)) + pending dv
             \<le> length (filter is_publish (trace dv))"
  shows "length (filter is_draw (trace (main_iteration P now polled dv)))
           + pending (main_iteration P now polled dv)
             \<le> length (filter is_publish (trace (main_iteration P now polled dv)))"
proof (cases polled)
  case (PollRaises e)
  then show ?thesis by (simp add: main_iteration_def draws_set_monitor_cmd [OF assms])
next
  case PollEmpty
  then show ?thesis by (simp add: main_iteration_def draws_set_monitor_cmd [OF assms])
next
  case (PollLine line)
  obtain dv' r where t: "try_command P now line dv = (dv', r)"
    by (cases "try_command P now line dv")
  have inv: "length (filter is_draw (trace dv')) + pending dv'
               \<le> length (filter is_publish (trace dv'))"
    using draws_try_command [OF assms, of P now line] t by simp
  show ?thesis
    using inv by (cases r) (simp_all add: PollLine main_iteration_def t draws_set_monitor_cmd)
qed

lemma draws_monitor_iteration:
  assumes "length (filter is_draw (trace dv)) + pending dv
             \<le> length (filter is_publish (trace dv))"
  shows "length (filter is_draw (trace (monitor_iteration P dv)))
           + pending (monitor_iteration P dv)
             \<le> length (filter is_publish (trace (monitor_iteration P dv)))"
proof (cases "rendered (monitor_cmd dv)")
  case True
  then show ?thesis using assms by (simp add: monitor_iteration_rendered)
next
  case False
  show ?thesis
  proof (cases "draw_exn P (title (monitor_cmd dv)) (message (monitor_cmd dv))")
    case None
    then show ?thesis
      using assms False by (simp add: monitor_iteration_draws [OF False None] pending_def)
  next
    case (Some e)
    then show ?thesis
      using False by (simp add: monitor_iteration_def draws_set_monitor_cmd [OF assms])
  qed
qed

lemma draws_run:
  "length (filter is_draw (trace dv)) + pending dv \<le> length (filter is_publish (trace dv)) \<Longrightarrow>
   length (filter is_draw (trace (run P steps dv))) + pending (run P steps dv)
     \<le> length (filter is_publish (trace (run P steps dv)))"
proof (induction steps arbitrary: dv)
  case Nil
  then show ?case by simp
next
  case (Cons st steps)
  show ?case
  proof (cases st)
    case (MainStep now polled)
    then show ?thesis
      using Cons.IH [OF draws_main_iteration [OF Cons.prems]] by simp
  next
    case MonitorStep
    then show ?thesis
      using Cons.IH [OF draws_monitor_iteration [OF Cons.prems]] by simp
  qed
qed

lemma draws_device_init:
  "length (filter is_draw (trace device_init)) + pending device_init
     \<le> length (filter is_publish (trace device_init))"
  by (simp add: device_init_def pending_def init_cmd_def MCmd_init_def)

text \<open>
  C9. The mailbox is the single variable \<open>monitor_cmd\<close>. After a message \<open>A\<close> and then
  a message \<open>B\<close> are assigned with no pass of the display thread in between, the slot
  holds \<open>B\<close>, and any number of passes of the display thread after that (at least one)
  draws \<open>B\<close> once and nothing else: \<open>A\<close> is never drawn. The \<open>rendered\<close> flag is then
  set, and one more pass of the display thread changes nothing. In every schedule of the
  two loops from the initial device, no more messages have been drawn than have been
  assigned.
\<close>

theorem mailbox_single_slot:
  assumes "\<not> rendered b" and "draw_exn P (title b) (message b) = None"
  shows "monitor_cmd (set_monitor_cmd b (set_monitor_cmd a dv)) = b
       \<and> trace (run P (replicate (Suc n) MonitorStep) (set_monitor_cmd b (set_monitor_cmd a dv)))
           = trace dv @ [Publish a, Publish b, Draw (title b) (message b)]
       \<and> rendered (monitor_cmd
            (run P (replicate (Suc n) MonitorStep) (set_monitor_cmd b (set_monitor_cmd a dv))))
       \<and> monitor_iteration P
            (run P (replicate (Suc n) MonitorStep) (set_monitor_cmd b (set_monitor_cmd a dv)))
           = run P (replicate (Suc n) MonitorStep) (set_monitor_cmd b (set_monitor_cmd a dv))
       \<and> length (filter is_draw (trace (run P steps device_init)))
           \<le> length (filter is_publish (trace (run P steps device_init)))"
proof -
  let ?dv = "set_monitor_cmd b (set_monitor_cmd a dv)"
  have m: "monitor_cmd ?dv = b"
    by (simp add: set_monitor_cmd_def)
  have first: "monitor_iteration P ?dv
                 = ?dv\<lparr>monitor_cmd := b\<lparr>rendered := True\<rparr>,
                        trace := trace ?dv @ [Draw (title b) (message b)]\<rparr>"
    using monitor_iteration_draws [of ?dv P] assms by (simp add: m)
  have "run P (replicate (Suc n) MonitorStep) ?dv
          = run P (replicate n MonitorStep) (monitor_iteration P ?dv)"
    by simp
  also have "\<dots> = monitor_iteration P ?dv"
    by (rule run_monitor_rendered) (simp add: first)
  finally have r: "run P (replicate (Suc n) MonitorStep) ?dv = monitor_iteration P ?dv" .
  have bound: "length (filter is_draw (trace (run P steps device_init)))
                 \<le> length (filter is_publish (trace (run P steps device_init)))"
    using draws_run [OF draws_device_init, of P steps] by simp
  have t: "trace (run P (replicate (Suc n) MonitorStep) ?dv)
             = trace dv @ [Publish a, Publish b, Draw (title b) (message b)]"
    unfolding r first by (simp add: set_monitor_cmd_def)
  have rd: "rendered (monitor_cmd (run P (replicate (Suc n) MonitorStep) ?dv))"
    unfolding r first by simp
  have again: "monitor_iteration P (run P (replicate (Suc n) MonitorStep) ?dv)
                 = run P (replicate (Suc n) MonitorStep) ?dv"
    using rd by (rule monitor_iteration_rendered)
  from m t rd again bound show ?thesis
    by (simp del: run.simps replicate.simps)
qed

theorem mailbox_single_slot_witness:
  "\<not> rendered (MCmd_init False ''B'' ''second'' 10)
   \<and> draw_exn sample_platform (title (MCmd_init False ''B'' ''second'' 10))
        (message (MCmd_init False ''B'' ''second'' 10)) = None
   \<and> trace (run sample_platform [MonitorStep, MonitorStep]
              (set_monitor_cmd (MCmd_init False ''B'' ''second'' 10)
                 (set_monitor_cmd (MCmd_init False ''A'' ''first'' 10) device_init)))
       = [PwmDuty 0, Publish init_cmd, Publish (MCmd_init False ''A'' ''first'' 10),
          Publish (MCmd_init False ''B'' ''second'' 10), Draw ''B'' ''second'']
   \<and> monitor_iteration sample_platform
        (run sample_platform [MonitorStep, MonitorStep]
           (set_monitor_cmd (MCmd_init False ''B'' ''second'' 10)
              (set_monitor_cmd (MCmd_init False ''A'' ''first'' 10) device_init)))
       = run sample_platform [MonitorStep, MonitorStep]
           (set_monitor_cmd (MCmd_init False ''B'' ''second'' 10)
              (set_monitor_cmd (MCmd_init False ''A'' ''first'' 10) device_init))
   \<and> length (filter is_draw
         (trace (run sample_platform [MonitorStep, MainStep 0 PollEmpty, MonitorStep, MonitorStep]
                   device_init))) \<le> 2"
proof -
  have nr: "\<not> rendered (MCmd_init False ''B'' ''second'' 10)"
    by (simp add: MCmd_init_def)
  have nd: "draw_exn sample_platform (title (MCmd_init False ''B'' ''second'' 10))
        (message (MCmd_init False ''B'' ''second'' 10)) = None"
    by (simp add: sample_platform_simps)
  have pubs: "length (filter is_publish
         (trace (run sample_platform [MonitorStep, MainStep 0 PollEmpty, MonitorStep, MonitorStep]
                   device_init))) = 2"
    by (simp add: monitor_iteration_def main_iteration_def set_monitor_cmd_def call_def
        device_init_def init_cmd_def MCmd_init_def sample_platform_simps)
  from mailbox_single_slot [OF nr nd, of "MCmd_init False ''A'' ''first'' 10" device_init
      "Suc 0" "[MonitorStep, MainStep 0 PollEmpty, MonitorStep, MonitorStep]"] nr nd pubs
  show ?thesis
    by (simp add: device_init_def MCmd_init_def)
qed

end
